theory Spec2Isabelle
  imports Complex_Main "HOL-Library.Multiset"
begin

section \<open>JavaScript numbers\<close>

text \<open>
  The engine computes with JavaScript numbers. A finite number is modelled by the real
  it denotes; the three special values that the arithmetic of the code can produce from
  finite inputs are kept as values of their own, with the rules of the language:
  \<open>x / 0\<close> is an infinity for \<open>x \<noteq> 0\<close> and NaN for \<open>x = 0\<close>, every comparison with
  NaN is false, and \<open>Math.min\<close> of anything with NaN is NaN. Zero carries no sign: the
  divisors of the code are sums that start from the literal \<open>0\<close>, which are never the
  negative zero.
  Numbers that enter the engine from outside (the parsed feed, the vault snapshot, the
  configuration) are finite, and have type \<open>real\<close>.
  The rounding of the binary format is written out (\<open>fl\<close>, \<open>dround\<close> below) where the
  exact value of a result decides what the code returns: in the product of the ranker,
  by which it sorts, and in the cost model, whose quotient passes through a ceiling. In
  the sums and quotients of the optimizer, the planner and the scorer the real result
  stands for the rounded one.
\<close>

datatype jsnum = Num real | PInf | NInf | NaN

fun jneg :: "jsnum \<Rightarrow> jsnum" where
  "jneg (Num a) = Num (- a)"
| "jneg PInf = NInf"
| "jneg NInf = PInf"
| "jneg NaN = NaN"

fun jadd :: "jsnum \<Rightarrow> jsnum \<Rightarrow> jsnum" where
  "jadd (Num a) (Num b) = Num (a + b)"
| "jadd NaN y = NaN"
| "jadd x NaN = NaN"
| "jadd PInf NInf = NaN"
| "jadd NInf PInf = NaN"
| "jadd PInf y = PInf"
| "jadd x PInf = PInf"
| "jadd NInf y = NInf"
| "jadd x NInf = NInf"

definition jsub :: "jsnum \<Rightarrow> jsnum \<Rightarrow> jsnum" where
  "jsub x y = jadd x (jneg y)"

fun is_neg :: "jsnum \<Rightarrow> bool" where
  "is_neg (Num a) = (a < 0)"
| "is_neg NInf = True"
| "is_neg PInf = False"
| "is_neg NaN = False"

fun jmul :: "jsnum \<Rightarrow> jsnum \<Rightarrow> jsnum" where
  "jmul (Num a) (Num b) = Num (a * b)"
| "jmul NaN y = NaN"
| "jmul x NaN = NaN"
| "jmul x y = (if x = Num 0 \<or> y = Num 0 then NaN
               else if is_neg x = is_neg y then PInf else NInf)"

fun jdiv :: "jsnum \<Rightarrow> jsnum \<Rightarrow> jsnum" where
  "jdiv (Num a) (Num b) =
     (if b = 0 then (if a = 0 then NaN else if 0 < a then PInf else NInf)
      else Num (a / b))"
| "jdiv NaN y = NaN"
| "jdiv x NaN = NaN"
| "jdiv (Num a) y = Num 0"
| "jdiv x (Num b) = (if is_neg x = (b < 0) then PInf else NInf)"
| "jdiv x y = NaN"

text \<open>\<open>Math.min\<close>, \<open>Math.abs\<close> and the comparison \<open><\<close>.\<close>

fun jmin :: "jsnum \<Rightarrow> jsnum \<Rightarrow> jsnum" where
  "jmin (Num a) (Num b) = Num (min a b)"
| "jmin NaN y = NaN"
| "jmin x NaN = NaN"
| "jmin NInf y = NInf"
| "jmin x NInf = NInf"
| "jmin PInf y = y"
| "jmin x PInf = x"

fun jabs :: "jsnum \<Rightarrow> jsnum" where
  "jabs (Num a) = Num \<bar>a\<bar>"
| "jabs PInf = PInf"
| "jabs NInf = PInf"
| "jabs NaN = NaN"

fun jlt :: "jsnum \<Rightarrow> jsnum \<Rightarrow> bool" where
  "jlt (Num a) (Num b) = (a < b)"
| "jlt NaN y = False"
| "jlt x NaN = False"
| "jlt NInf y = (y \<noteq> NInf)"
| "jlt x PInf = (x \<noteq> PInf)"
| "jlt x y = False"

subsection \<open>Rounding to the binary format\<close>

text \<open>
  A double is an integer of at most 53 bits times a power of two, with an exponent of
  at least -1074. The result of an arithmetic operation, and a decimal literal, is the
  double nearest to the exact value, the even one of two that are equally near (\<open>fl\<close>);
  a result whose rounding reaches 2 to the power 1024 is an infinity (\<open>dround\<close>).
\<close>

definition roundEven :: "real \<Rightarrow> int" where
  "roundEven x =
     (let f = \<lfloor>x\<rfloor>; d = x - real_of_int f
      in if d < 1 / 2 then f else if 1 / 2 < d then f + 1 else if even f then f else f + 1)"

definition quantum :: "real \<Rightarrow> real" where
  "quantum x = 2 powr (real_of_int (max \<lfloor>log 2 \<bar>x\<bar>\<rfloor> (- 1022)) - 52)"

definition fl :: "real \<Rightarrow> real" where
  "fl x = (if x = 0 then 0 else real_of_int (roundEven (x / quantum x)) * quantum x)"

definition dround :: "real \<Rightarrow> jsnum" where
  "dround x =
     (let y = fl x
      in if 2 powr 1024 \<le> \<bar>y\<bar> then (if 0 < x then PInf else NInf) else Num y)"

fun rnd :: "jsnum \<Rightarrow> jsnum" where
  "rnd (Num x) = dround x"
| "rnd PInf = PInf"
| "rnd NInf = NInf"
| "rnd NaN = NaN"

text \<open>Division and multiplication of doubles.\<close>

definition ddiv :: "jsnum \<Rightarrow> jsnum \<Rightarrow> jsnum" where
  "ddiv x y = rnd (jdiv x y)"

definition dmul :: "jsnum \<Rightarrow> jsnum \<Rightarrow> jsnum" where
  "dmul x y = rnd (jmul x y)"

section \<open>Data model (types.ts)\<close>

record ProtocolAPY =
  protocol :: string
  asset :: string
  baseAPY :: real
  rewardsAPY :: real
  totalAPY :: real
  tvl :: real
  utilizationRate :: real
  lastUpdated :: int
  poolId :: string
  symbol :: string

text \<open>
  A score is finite or NaN: the scorer divides by no variable, and NaN comes from a
  field that is \<open>undefined\<close>.
\<close>

datatype score = Score real | ScoreNaN

record RiskScore =
  rsProtocol :: string
  tvlScore :: real
  auditScore :: score
  ageScore :: real
  exploitScore :: real
  totalScore :: score

text \<open>An element of the list that \<open>rankOpportunities\<close> returns.\<close>

record Ranked =
  rkProtocol :: string
  rkTotalAPY :: real
  riskScore :: real
  riskAdjustedAPY :: real

record StrategyPosition =
  strategyPubkey :: string
  posProtocol :: string
  posAsset :: string
  amount :: real
  valueUSD :: real
  currentAPY :: real
  allocation :: real

record VaultState =
  vaultPubkey :: string
  totalValueUSD :: real
  positions :: "StrategyPosition list"
  lastRebalance :: int
  performanceSinceInception :: real

text \<open>
  Of \<open>AgentConfig\<close>, the six numbers; the vault key, the keypair path and the address of
  the node are not read by the engine.
\<close>

record AgentConfig =
  maxAllocationPerProtocol :: real
  minProtocolsForDiversity :: real
  minRiskScore :: real
  minAPYDifferenceToRebalance :: real
  minTimeBetweenRebalances :: real
  maxGasCostForRebalance :: real

text \<open>
  A \<open>Map<string, number>\<close> is the list of its entries in insertion order, with distinct
  keys: \<open>set\<close> on a present key replaces the value in place, on an absent key it appends.
\<close>

type_synonym 'v jsmap = "(string \<times> 'v) list"

fun map_set :: "'v jsmap \<Rightarrow> string \<Rightarrow> 'v \<Rightarrow> 'v jsmap" where
  "map_set [] k v = [(k, v)]"
| "map_set ((k', v') # m) k v =
     (if k' = k then (k, v) # m else (k', v') # map_set m k v)"

definition map_get :: "'v jsmap \<Rightarrow> string \<Rightarrow> 'v option" where
  "map_get m k = map_of m k"

section \<open>Allocation Optimizer (StrategyBrain.calculateOptimalAllocation)\<close>

text \<open>
  \<open>xs.slice(0, e)\<close>: the end is truncated to an integer; a negative end counts from the
  back, and the result is clamped to the array.
\<close>

definition trunc :: "real \<Rightarrow> int" where
  "trunc x = (if 0 \<le> x then \<lfloor>x\<rfloor> else \<lceil>x\<rceil>)"

definition slice0 :: "'a list \<Rightarrow> real \<Rightarrow> 'a list" where
  "slice0 xs e =
     (let len = int (length xs); k = trunc e;
          final = (if k < 0 then max (len + k) 0 else min k len)
      in take (nat final) xs)"

definition protocolsToUse :: "AgentConfig \<Rightarrow> Ranked list \<Rightarrow> Ranked list" where
  "protocolsToUse config ranked =
     slice0 ranked (max (minProtocolsForDiversity config) (real (length ranked)))"

definition totalWeight :: "Ranked list \<Rightarrow> real" where
  "totalWeight ps = foldl (\<lambda>sum p. sum + riskAdjustedAPY p) 0 ps"

text \<open>The first loop: the share of each protocol, capped.\<close>

definition cappedWeight :: "AgentConfig \<Rightarrow> real \<Rightarrow> Ranked \<Rightarrow> jsnum" where
  "cappedWeight config tw p =
     jmin (jdiv (Num (riskAdjustedAPY p)) (Num tw)) (Num (maxAllocationPerProtocol config))"

definition cappedAllocation :: "AgentConfig \<Rightarrow> Ranked list \<Rightarrow> jsnum jsmap" where
  "cappedAllocation config ps =
     foldl (\<lambda>m p. map_set m (rkProtocol p) (cappedWeight config (totalWeight ps) p)) [] ps"

text \<open>The second loop: every entry of the map is divided by the sum of the values.\<close>

definition totalAllocation :: "jsnum jsmap \<Rightarrow> jsnum" where
  "totalAllocation m = foldl jadd (Num 0) (map snd m)"

definition normalize :: "jsnum jsmap \<Rightarrow> jsnum jsmap" where
  "normalize m =
     foldl (\<lambda>acc (k, w). map_set acc k (jdiv w (totalAllocation m))) m m"

definition calculateOptimalAllocation :: "AgentConfig \<Rightarrow> Ranked list \<Rightarrow> jsnum jsmap" where
  "calculateOptimalAllocation config ranked =
     normalize (cappedAllocation config (protocolsToUse config ranked))"

section \<open>Yield feed and risk scores (apy-monitor.ts)\<close>

record ProtocolCfg =
  cfgName :: string
  defillamaProject :: string
  cfgRiskBase :: real

definition PROTOCOL_CONFIG :: "(string \<times> ProtocolCfg) list" where
  "PROTOCOL_CONFIG =
    [(''kamino'', \<lparr>cfgName = ''Kamino'', defillamaProject = ''kamino-lend'', cfgRiskBase = 88\<rparr>),
     (''save'', \<lparr>cfgName = ''Save (Solend)'', defillamaProject = ''save'', cfgRiskBase = 72\<rparr>),
     (''loopscale'', \<lparr>cfgName = ''Loopscale'', defillamaProject = ''loopscale'', cfgRiskBase = 75\<rparr>),
     (''drift'', \<lparr>cfgName = ''Drift'', defillamaProject = ''drift-staked-sol'', cfgRiskBase = 82\<rparr>),
     (''jito'', \<lparr>cfgName = ''Jito'', defillamaProject = ''jito-liquid-staking'', cfgRiskBase = 90\<rparr>),
     (''jupiter'', \<lparr>cfgName = ''Jupiter'', defillamaProject = ''jupiter-staked-sol'', cfgRiskBase = 88\<rparr>),
     (''marinade'', \<lparr>cfgName = ''Marinade'', defillamaProject = ''marinade-liquid-staking'',
        cfgRiskBase = 85\<rparr>)]"

definition ASSET_SYMBOLS :: "(string \<times> string list) list" where
  "ASSET_SYMBOLS =
    [(''USDC'', [''USDC'']),
     (''USDT'', [''USDT'']),
     (''SOL'', [''SOL'', ''JITOSOL'', ''JUPSOL'', ''MSOL'', ''DSOL'', ''BSOL''])]"

record DefiLlamaPool =
  poolChain :: string
  poolProject :: string
  poolSymbol :: string
  tvlUsd :: real
  poolApy :: real
  poolApyBase :: "real option"
  poolApyReward :: "real option"
  pool :: string
  stablecoin :: bool
  ilRisk :: string

text \<open>
  What the request to the feed can do: the promise of \<open>fetch\<close> rejects, or a response
  arrives with its \<open>ok\<close> flag, its status and a body that parses to a pool list or does
  not. Every failure is thrown again by the \<open>catch\<close> block after logging.
\<close>

datatype http_response = Rejected | Response bool nat "DefiLlamaPool list option"

datatype fetch_error = NetworkError | ApiError nat | ParseError

fun fetchDefiLlamaPools :: "http_response \<Rightarrow> fetch_error + DefiLlamaPool list" where
  "fetchDefiLlamaPools Rejected = Inl NetworkError"
| "fetchDefiLlamaPools (Response ok status body) =
     (if \<not> ok then Inl (ApiError status)
      else case body of
             None \<Rightarrow> Inl ParseError
           | Some ps \<Rightarrow> Inr (filter (\<lambda>p. poolChain p = ''Solana'' \<and> tvlUsd p > 100000) ps))"

text \<open>\<open>toUpperCase\<close> and \<open>includes\<close>, on the ASCII symbols of the feed.\<close>

definition upperChar :: "char \<Rightarrow> char" where
  "upperChar c =
     (let n = (of_char c :: nat) in if 97 \<le> n \<and> n \<le> 122 then char_of (n - 32) else c)"

definition toUpperCase :: "string \<Rightarrow> string" where
  "toUpperCase s = map upperChar s"

fun startsWith :: "string \<Rightarrow> string \<Rightarrow> bool" where
  "startsWith s [] = True"
| "startsWith [] (c # cs) = False"
| "startsWith (x # xs) (c # cs) = (x = c \<and> startsWith xs cs)"

fun includesStr :: "string \<Rightarrow> string \<Rightarrow> bool" where
  "includesStr [] sub = (sub = [])"
| "includesStr (x # xs) sub = (startsWith (x # xs) sub \<or> includesStr xs sub)"

text \<open>\<open>a || b\<close> on a number that may be \<open>null\<close>: zero and \<open>null\<close> give way to \<open>b\<close>.\<close>

definition orElse :: "real option \<Rightarrow> real \<Rightarrow> real" where
  "orElse a b = (case a of None \<Rightarrow> b | Some x \<Rightarrow> if x = 0 then b else x)"

definition matchingPools :: "ProtocolCfg \<Rightarrow> string list \<Rightarrow> DefiLlamaPool list \<Rightarrow> DefiLlamaPool list" where
  "matchingPools cfg symbolsToMatch pools =
     filter (\<lambda>p. poolProject p = defillamaProject cfg \<and>
                 list_ex (\<lambda>sym. includesStr (toUpperCase (poolSymbol p)) (toUpperCase sym)) symbolsToMatch)
            pools"

text \<open>\<open>reduce\<close> without an initial value, on a list known to be non-empty.\<close>

definition bestPool :: "DefiLlamaPool list \<Rightarrow> DefiLlamaPool" where
  "bestPool ps = foldl (\<lambda>best current. if poolApy current > poolApy best then current else best)
                       (hd ps) (tl ps)"

definition fetchAllAPYs :: "string \<Rightarrow> int \<Rightarrow> http_response \<Rightarrow> fetch_error + ProtocolAPY list" where
  "fetchAllAPYs ast now resp =
     (case fetchDefiLlamaPools resp of
        Inl e \<Rightarrow> Inl e
      | Inr pools \<Rightarrow>
          let symbolsToMatch = (case map_of ASSET_SYMBOLS ast of Some l \<Rightarrow> l | None \<Rightarrow> [ast])
          in Inr (foldl (\<lambda>apys (protocolId, cfg).
                    let ms = matchingPools cfg symbolsToMatch pools
                    in if length ms > 0
                       then let b = bestPool ms
                            in apys @ [\<lparr>protocol = protocolId, asset = ast,
                                        baseAPY = orElse (poolApyBase b) (poolApy b) / 100,
                                        rewardsAPY = orElse (poolApyReward b) 0 / 100,
                                        totalAPY = poolApy b / 100,
                                        tvl = tvlUsd b,
                                        utilizationRate = 7 / 10,
                                        lastUpdated = now,
                                        poolId = pool b,
                                        symbol = poolSymbol b\<rparr>]
                       else apys)
                  [] PROTOCOL_CONFIG))"

text \<open>\<open>Math.round\<close> rounds half up.\<close>

definition jsRound :: "real \<Rightarrow> int" where
  "jsRound x = \<lfloor>x + 1 / 2\<rfloor>"

definition round1 :: "real \<Rightarrow> real" where
  "round1 x = real_of_int (jsRound (x * 10)) / 10"

text \<open>
  \<open>PROTOCOL_CONFIG[apy.protocol]\<close> reads a property of a plain object: one of the table's
  own, or else one inherited from \<open>Object.prototype\<close>, whose value is a function or an
  object (so \<open>!config\<close> is false) without a \<open>riskBase\<close>.
\<close>

definition objectPrototypeKeys :: "string list" where
  "objectPrototypeKeys =
     [''constructor'', ''hasOwnProperty'', ''isPrototypeOf'', ''propertyIsEnumerable'',
      ''toLocaleString'', ''toString'', ''valueOf'', ''__proto__'', ''__defineGetter__'',
      ''__defineSetter__'', ''__lookupGetter__'', ''__lookupSetter__'']"

datatype 'a property = Own 'a | Inherited | Undefined

definition getProperty :: "(string \<times> 'a) list \<Rightarrow> string \<Rightarrow> 'a property" where
  "getProperty obj k =
     (case map_of obj k of
        Some v \<Rightarrow> Own v
      | None \<Rightarrow> if k \<in> set objectPrototypeKeys then Inherited else Undefined)"

text \<open>
  With \<open>riskBase\<close> undefined the audit score and the total are NaN, and the comparison
  \<open>riskBase < 80\<close> is false.
\<close>

definition riskScoreOf :: "ProtocolAPY \<Rightarrow> RiskScore" where
  "riskScoreOf a =
     (case getProperty PROTOCOL_CONFIG (protocol a) of
        Undefined \<Rightarrow> \<lparr>rsProtocol = protocol a, tvlScore = 0, auditScore = Score 0, ageScore = 0,
                       exploitScore = 0, totalScore = Score 50\<rparr>
      | Inherited \<Rightarrow>
          let tvlS = min 25 (log 10 (max 1 (tvl a / 1000000)) * 8);
              ageS = 20;
              exploitPenalty = 0;
              exploitS = 25 - exploitPenalty
          in \<lparr>rsProtocol = protocol a, tvlScore = round1 tvlS, auditScore = ScoreNaN,
              ageScore = ageS, exploitScore = exploitS, totalScore = ScoreNaN\<rparr>
      | Own cfg \<Rightarrow>
          let tvlS = min 25 (log 10 (max 1 (tvl a / 1000000)) * 8);
              auditS = (cfgRiskBase cfg / 100) * 25;
              ageS = 20;
              exploitPenalty = (if cfgRiskBase cfg < 80 then 8 else 0);
              exploitS = 25 - exploitPenalty
          in \<lparr>rsProtocol = protocol a, tvlScore = round1 tvlS,
              auditScore = Score (round1 auditS),
              ageScore = ageS, exploitScore = exploitS,
              totalScore = Score (round1 (tvlS + auditS + ageS + exploitS))\<rparr>)"

definition calculateRiskScores :: "ProtocolAPY list \<Rightarrow> RiskScore list" where
  "calculateRiskScores apys = map riskScoreOf apys"

section \<open>Opportunity Ranker (rankOpportunities)\<close>

text \<open>
  \<open>Array.prototype.sort\<close> with a comparator is a stable sort: \<open>a\<close> stays before \<open>b\<close>
  unless the comparator is positive on \<open>(a, b)\<close>. It is modelled by insertion from the
  right, which is stable.
\<close>

fun insertCmp :: "('a \<Rightarrow> 'a \<Rightarrow> real) \<Rightarrow> 'a \<Rightarrow> 'a list \<Rightarrow> 'a list" where
  "insertCmp cmp x [] = [x]"
| "insertCmp cmp x (y # ys) = (if cmp x y \<le> 0 then x # y # ys else y # insertCmp cmp x ys)"

definition jsSort :: "('a \<Rightarrow> 'a \<Rightarrow> real) \<Rightarrow> 'a list \<Rightarrow> 'a list" where
  "jsSort cmp xs = foldr (insertCmp cmp) xs []"

text \<open>
  \<open>risk?.totalScore || 50\<close>: 50 when no score is found, and when the score is 0 or NaN.
  The risk-adjusted APY is a quotient and a product of doubles (its overflow, beyond
  any yield, is not modelled).
\<close>

definition scoreOr :: "score option \<Rightarrow> real \<Rightarrow> real" where
  "scoreOr s b =
     (case s of
        None \<Rightarrow> b
      | Some ScoreNaN \<Rightarrow> b
      | Some (Score x) \<Rightarrow> if x = 0 then b else x)"

definition opportunityOf :: "RiskScore list \<Rightarrow> ProtocolAPY \<Rightarrow> Ranked" where
  "opportunityOf risks a =
     (let risk = find (\<lambda>r. rsProtocol r = protocol a) risks;
          score = scoreOr (map_option totalScore risk) 50
      in \<lparr>rkProtocol = protocol a, rkTotalAPY = totalAPY a, riskScore = score,
          riskAdjustedAPY = fl (totalAPY a * fl (score / 100))\<rparr>)"

definition rankOpportunities :: "ProtocolAPY list \<Rightarrow> RiskScore list \<Rightarrow> real \<Rightarrow> Ranked list" where
  "rankOpportunities apys risks minRisk =
     jsSort (\<lambda>a b. riskAdjustedAPY b - riskAdjustedAPY a)
       (filter (\<lambda>r. riskScore r \<ge> minRisk) (map (opportunityOf risks) apys))"

section \<open>Rebalance Planner (StrategyBrain.calculateRequiredChanges)\<close>

record Leg =
  legProtocol :: string
  legAmount :: jsnum

record Transfer =
  fromLeg :: Leg
  toLeg :: Leg

definition getCurrentAllocationMap :: "StrategyPosition list \<Rightarrow> real jsmap" where
  "getCurrentAllocationMap ps = foldl (\<lambda>m pos. map_set m (posProtocol pos) (allocation pos)) [] ps"

text \<open>
  The first loop runs over the entries of the optimal allocation and fills the two
  lists. \<open>current.get(protocol) || 0\<close> is 0 for an absent protocol.
\<close>

definition diffStep :: "real jsmap \<Rightarrow> real \<Rightarrow> Leg list \<times> Leg list \<Rightarrow> string \<times> jsnum \<Rightarrow> Leg list \<times> Leg list" where
  "diffStep current totalValue acc e =
     (case acc of (decreases, increases) \<Rightarrow>
      case e of (p, optimalWeight) \<Rightarrow>
        let currentWeight = orElse (map_get current p) 0;
            diff = jsub optimalWeight (Num currentWeight)
        in if jlt diff (Num (- (1 / 100)))
           then (decreases @ [\<lparr>legProtocol = p, legAmount = jmul (jabs diff) (Num totalValue)\<rparr>],
                 increases)
           else if jlt (Num (1 / 100)) diff
           then (decreases,
                 increases @ [\<lparr>legProtocol = p, legAmount = jmul diff (Num totalValue)\<rparr>])
           else (decreases, increases))"

definition requiredDiffs :: "real jsmap \<Rightarrow> jsnum jsmap \<Rightarrow> real \<Rightarrow> Leg list \<times> Leg list" where
  "requiredDiffs current optimal totalValue = foldl (diffStep current totalValue) ([], []) optimal"

text \<open>
  The matching loop, with its two arrays, which it updates in place, and its two
  indices. The loop need not end (an amount that is not finite is never below the
  threshold), so the result is optional: \<open>None\<close> is a loop that runs forever. The final
  state of the loop is returned whole; the method returns its first component.
\<close>

partial_function (option) matchLoop ::
  "Transfer list \<Rightarrow> Leg list \<Rightarrow> Leg list \<Rightarrow> nat \<Rightarrow> nat
     \<Rightarrow> (Transfer list \<times> Leg list \<times> Leg list \<times> nat \<times> nat) option" where
  "matchLoop changes decreases increases i j =
     (if i < length decreases \<and> j < length increases
      then (let moveAmount = jmin (legAmount (decreases ! i)) (legAmount (increases ! j));
                changes' = changes @
                  [\<lparr>fromLeg = \<lparr>legProtocol = legProtocol (decreases ! i), legAmount = moveAmount\<rparr>,
                    toLeg = \<lparr>legProtocol = legProtocol (increases ! j), legAmount = moveAmount\<rparr>\<rparr>];
                decreases' = decreases[i := (decreases ! i)
                               \<lparr>legAmount := jsub (legAmount (decreases ! i)) moveAmount\<rparr>];
                increases' = increases[j := (increases ! j)
                               \<lparr>legAmount := jsub (legAmount (increases ! j)) moveAmount\<rparr>];
                i' = (if jlt (legAmount (decreases' ! i)) (Num (1 / 100)) then i + 1 else i);
                j' = (if jlt (legAmount (increases' ! j)) (Num (1 / 100)) then j + 1 else j)
            in matchLoop changes' decreases' increases' i' j')
      else Some (changes, decreases, increases, i, j))"

definition calculateRequiredChanges :: "real jsmap \<Rightarrow> jsnum jsmap \<Rightarrow> real \<Rightarrow> Transfer list option" where
  "calculateRequiredChanges current optimal totalValue =
     (case requiredDiffs current optimal totalValue of
        (decreases, increases) \<Rightarrow> map_option fst (matchLoop [] decreases increases 0 0))"

section \<open>Decision Gate (StrategyBrain.analyzeAndDecide, recordRebalance)\<close>

definition calculateExpectedImprovement ::
  "StrategyPosition list \<Rightarrow> jsnum jsmap \<Rightarrow> ProtocolAPY list \<Rightarrow> jsnum" where
  "calculateExpectedImprovement currentPositions optimalAllocation apys =
     (let currentA = foldl (\<lambda>sum pos. sum + currentAPY pos * allocation pos) 0 currentPositions;
          optimalA = foldl (\<lambda>acc (p, weight).
                        case find (\<lambda>a. protocol a = p) apys of
                          Some a \<Rightarrow> jadd acc (jmul (Num (totalAPY a)) weight)
                        | None \<Rightarrow> acc)
                      (Num 0) optimalAllocation
      in jsub optimalA (Num currentA))"

text \<open>
  The justification is a template string; the model keeps which template it is and the
  numbers that are written into it.
\<close>

datatype Reason =
    TooSoon int real
  | BelowThreshold jsnum real
  | GasExceeds real real
  | WillImprove jsnum

record RebalanceDecision =
  shouldRebalance :: bool
  reason :: Reason
  proposedChanges :: "Transfer list"
  expectedAPYImprovement :: jsnum
  estimatedGasCost :: real

text \<open>
  The state of a \<open>StrategyBrain\<close>: its configuration and the time of the last recorded
  rebalance, in milliseconds, or \<open>None\<close> for \<open>null\<close>.
\<close>

record Brain =
  config :: AgentConfig
  lastRebalanceTime :: "int option"

definition newBrain :: "AgentConfig \<Rightarrow> Brain" where
  "newBrain c = \<lparr>config = c, lastRebalanceTime = None\<rparr>"

text \<open>\<open>recordRebalance\<close> reads the clock, which is an argument here.\<close>

definition recordRebalance :: "int \<Rightarrow> Brain \<Rightarrow> Brain" where
  "recordRebalance now b = b\<lparr>lastRebalanceTime := Some now\<rparr>"

definition timeSinceRebalance :: "int \<Rightarrow> int \<Rightarrow> real" where
  "timeSinceRebalance now t = real_of_int (now - t) / 1000"

text \<open>
  Step 2 of the cycle, the cooldown check: the rejection it returns, or \<open>None\<close> when
  the cycle goes on.
\<close>

definition cooldownCheck :: "Brain \<Rightarrow> int \<Rightarrow> RebalanceDecision option" where
  "cooldownCheck b now =
     (case lastRebalanceTime b of
        None \<Rightarrow> None
      | Some t \<Rightarrow>
          let since = timeSinceRebalance now t
          in if since < minTimeBetweenRebalances (config b)
             then Some \<lparr>shouldRebalance = False,
                        reason = TooSoon \<lfloor>since / 60\<rfloor> (minTimeBetweenRebalances (config b) / 60),
                        proposedChanges = [],
                        expectedAPYImprovement = Num 0,
                        estimatedGasCost = 0\<rparr>
             else None)"

text \<open>Steps 3 to 6: allocation, plan, and the two remaining gates.\<close>

definition planAndGate ::
  "Brain \<Rightarrow> ProtocolAPY list \<Rightarrow> Ranked list \<Rightarrow> VaultState \<Rightarrow> RebalanceDecision option" where
  "planAndGate b apys ranked vaultState =
     (let optimalAllocation = calculateOptimalAllocation (config b) ranked;
          currentAllocation = getCurrentAllocationMap (positions vaultState)
      in case calculateRequiredChanges currentAllocation optimalAllocation
                (totalValueUSD vaultState) of
           None \<Rightarrow> None
         | Some changes \<Rightarrow>
             let expectedImprovement = calculateExpectedImprovement
                   (positions vaultState) optimalAllocation apys;
                 estimatedGas = real (length changes) * (1 / 1000) * 200
             in if jlt expectedImprovement (Num (minAPYDifferenceToRebalance (config b)))
                then Some \<lparr>shouldRebalance = False,
                       reason = BelowThreshold expectedImprovement
                                  (minAPYDifferenceToRebalance (config b)),
                       proposedChanges = [],
                       expectedAPYImprovement = expectedImprovement,
                       estimatedGasCost = estimatedGas\<rparr>
                else if estimatedGas > maxGasCostForRebalance (config b)
                then Some \<lparr>shouldRebalance = False,
                       reason = GasExceeds estimatedGas (maxGasCostForRebalance (config b)),
                       proposedChanges = changes,
                       expectedAPYImprovement = expectedImprovement,
                       estimatedGasCost = estimatedGas\<rparr>
                else Some \<lparr>shouldRebalance = True,
                       reason = WillImprove expectedImprovement,
                       proposedChanges = changes,
                       expectedAPYImprovement = expectedImprovement,
                       estimatedGasCost = estimatedGas\<rparr>)"

text \<open>
  One decision cycle. Its arguments are the state of the brain, the clock, the answer
  of the feed and the vault snapshot; it returns what the caller receives (the error
  thrown, or the decision) with the state of the brain afterwards, or \<open>None\<close> when the
  matching loop never returns. The feed is asked first, before the cooldown check.
\<close>

definition analyzeAndDecide ::
  "Brain \<Rightarrow> int \<Rightarrow> http_response \<Rightarrow> VaultState
     \<Rightarrow> ((fetch_error + RebalanceDecision) \<times> Brain) option" where
  "analyzeAndDecide b now resp vaultState =
     (case fetchAllAPYs ''USDC'' now resp of
        Inl e \<Rightarrow> Some (Inl e, b)
      | Inr apys \<Rightarrow>
          let risks = calculateRiskScores apys;
              ranked = rankOpportunities apys risks (minRiskScore (config b))
          in case cooldownCheck b now of
               Some d \<Rightarrow> Some (Inr d, b)
             | None \<Rightarrow> map_option (\<lambda>d. (Inr d, b)) (planAndGate b apys ranked vaultState))"

text \<open>The default configuration of the command-line entry point (index.ts).\<close>

definition DEFAULT_CONFIG :: AgentConfig where
  "DEFAULT_CONFIG =
     \<lparr>maxAllocationPerProtocol = 4 / 10, minProtocolsForDiversity = 3, minRiskScore = 60,
      minAPYDifferenceToRebalance = 2 / 100, minTimeBetweenRebalances = 3600,
      maxGasCostForRebalance = 5\<rparr>"

section \<open>Cross-chain cost model (chains.ts, multichain-monitor.ts)\<close>

datatype ChainId = solana | base | ethereum | arbitrum | hyperliquid

record ChainConfig =
  chainName :: string
  defillamaChain :: string
  cctpSupported :: bool
  cctpDomain :: "nat option"
  nativeToken :: string
  avgGasCostUSD :: real
  bridgeCostUSD :: real
  bridgeTimeMinutes :: real

text \<open>
  The costs are the doubles that the literals denote: \<open>0.001\<close>, \<open>0.05\<close> and \<open>0.10\<close> are
  rounded, the others are doubles as they stand.
\<close>

fun CHAIN_CONFIG :: "ChainId \<Rightarrow> ChainConfig" where
  "CHAIN_CONFIG solana =
     \<lparr>chainName = ''Solana'', defillamaChain = ''Solana'', cctpSupported = True,
      cctpDomain = Some 5, nativeToken = ''SOL'', avgGasCostUSD = fl (1 / 1000),
      bridgeCostUSD = 3 / 2, bridgeTimeMinutes = 2\<rparr>"
| "CHAIN_CONFIG base =
     \<lparr>chainName = ''Base'', defillamaChain = ''Base'', cctpSupported = True,
      cctpDomain = Some 6, nativeToken = ''ETH'', avgGasCostUSD = fl (5 / 100),
      bridgeCostUSD = 1, bridgeTimeMinutes = 15\<rparr>"
| "CHAIN_CONFIG ethereum =
     \<lparr>chainName = ''Ethereum'', defillamaChain = ''Ethereum'', cctpSupported = True,
      cctpDomain = Some 0, nativeToken = ''ETH'', avgGasCostUSD = 5,
      bridgeCostUSD = 2, bridgeTimeMinutes = 15\<rparr>"
| "CHAIN_CONFIG arbitrum =
     \<lparr>chainName = ''Arbitrum'', defillamaChain = ''Arbitrum'', cctpSupported = True,
      cctpDomain = Some 3, nativeToken = ''ETH'', avgGasCostUSD = fl (1 / 10),
      bridgeCostUSD = 1, bridgeTimeMinutes = 15\<rparr>"
| "CHAIN_CONFIG hyperliquid =
     \<lparr>chainName = ''Hyperliquid'', defillamaChain = ''Hyperliquid'', cctpSupported = False,
      cctpDomain = None, nativeToken = ''USDC'', avgGasCostUSD = fl (1 / 1000),
      bridgeCostUSD = 1, bridgeTimeMinutes = 5\<rparr>"

record CrossChainAPY =
  protocolId :: string
  ccProtocol :: string
  chain :: ChainId
  ccAsset :: string
  apy :: real
  apyBase :: real
  apyReward :: real
  ccTvl :: real
  riskBase :: real
  strategyType :: string
  liquidityRisk :: string
  ccPoolId :: string
  ccSymbol :: string
  ccLastUpdated :: int

record CrossChainOpportunity =
  oppProtocolId :: string
  oppProtocol :: string
  oppChain :: ChainId
  oppApy :: real
  oppRiskScore :: real
  oppRiskAdjustedAPY :: real
  oppTvl :: real
  oppStrategyType :: string
  oppLiquidityRisk :: string
  bridgeCostUSDOpp :: real
  gasCostUSD :: real
  totalCostUSD :: real
  minHoldDays :: jsnum
  netAPY :: jsnum

text \<open>\<open>Math.ceil\<close>.\<close>

fun jceil :: "jsnum \<Rightarrow> jsnum" where
  "jceil (Num a) = Num (real_of_int \<lceil>a\<rceil>)"
| "jceil x = x"

definition crossRiskScore :: "CrossChainAPY \<Rightarrow> real" where
  "crossRiskScore a =
     (let tvlFactor = min 10 (log 10 (max 1 (ccTvl a / 10000000)) * 5);
          liquidityPenalty = (if liquidityRisk a = ''high'' then - 15
                              else if liquidityRisk a = ''medium'' then - 5 else 0);
          strategyFactor = (if strategyType a = ''lending'' then 5
                            else if strategyType a = ''vault'' then 0 else - 5)
      in min 100 (max 0 (riskBase a + tvlFactor + liquidityPenalty + strategyFactor)))"

text \<open>
  The minimum hold days: two divisions of doubles, their quotient, and its ceiling. A
  division by zero, or a quotient beyond the range, would show as an infinity.
\<close>

definition minHoldDaysOf :: "real \<Rightarrow> real \<Rightarrow> jsnum" where
  "minHoldDaysOf totalCost apyV =
     (if totalCost > 0 \<and> apyV > 0
      then jceil (ddiv (ddiv (Num totalCost) (Num 1000)) (ddiv (Num apyV) (Num 365)))
      else Num 0)"

text \<open>The body of the loop, for a record that passes the risk filter.\<close>

definition crossOpportunity :: "ChainId \<Rightarrow> real \<Rightarrow> CrossChainAPY \<Rightarrow> CrossChainOpportunity" where
  "crossOpportunity currentChain holdDays a =
     (let chainConfig = CHAIN_CONFIG (chain a);
          needsBridge = (chain a \<noteq> currentChain);
          bridgeCost = (if needsBridge then bridgeCostUSD chainConfig else 0);
          gasCost = avgGasCostUSD chainConfig;
          totalCost = fl (bridgeCost + gasCost);
          score = crossRiskScore a;
          annualizedCost = dmul (ddiv (Num totalCost) (Num 1000)) (ddiv (Num 365) (Num holdDays))
      in \<lparr>oppProtocolId = protocolId a, oppProtocol = ccProtocol a, oppChain = chain a,
          oppApy = apy a, oppRiskScore = score,
          oppRiskAdjustedAPY = fl (apy a * fl (score / 100)),
          oppTvl = ccTvl a, oppStrategyType = strategyType a,
          oppLiquidityRisk = liquidityRisk a,
          bridgeCostUSDOpp = bridgeCost, gasCostUSD = gasCost, totalCostUSD = totalCost,
          minHoldDays = minHoldDaysOf totalCost (apy a),
          netAPY = rnd (jsub (Num (apy a)) annualizedCost)\<rparr>)"

definition rankCrossChainOpportunities ::
  "CrossChainAPY list \<Rightarrow> ChainId \<Rightarrow> real \<Rightarrow> real \<Rightarrow> CrossChainOpportunity list" where
  "rankCrossChainOpportunities apys currentChain holdDays minRisk =
     jsSort (\<lambda>a b. oppRiskAdjustedAPY b - oppRiskAdjustedAPY a)
       (foldl (\<lambda>opportunities a.
                 if crossRiskScore a < minRisk then opportunities
                 else opportunities @ [crossOpportunity currentChain holdDays a])
              [] apys)"

section \<open>Example inputs\<close>

text \<open>A ranked entry with a given protocol, APY and risk score.\<close>

definition rankedEntry :: "string \<Rightarrow> real \<Rightarrow> real \<Rightarrow> Ranked" where
  "rankedEntry p a score =
     \<lparr>rkProtocol = p, rkTotalAPY = a, riskScore = score, riskAdjustedAPY = a * (score / 100)\<rparr>"

text \<open>Three ranked protocols, the first with four fifths of the risk-adjusted yield.\<close>

definition skewedRanked :: "Ranked list" where
  "skewedRanked =
     [rankedEntry ''jito'' (8 / 100) 100, rankedEntry ''kamino'' (1 / 100) 100,
      rankedEntry ''save'' (1 / 100) 100]"

text \<open>Feed records and risk scores for the ranker.\<close>

definition apyRecord :: "string \<Rightarrow> real \<Rightarrow> real \<Rightarrow> ProtocolAPY" where
  "apyRecord p a t =
     \<lparr>protocol = p, asset = ''USDC'', baseAPY = a, rewardsAPY = 0, totalAPY = a, tvl = t,
      utilizationRate = 7 / 10, lastUpdated = 0, poolId = p, symbol = ''USDC''\<rparr>"

definition riskRecord :: "string \<Rightarrow> real \<Rightarrow> RiskScore" where
  "riskRecord p s =
     \<lparr>rsProtocol = p, tvlScore = 0, auditScore = Score 0, ageScore = 0, exploitScore = 0,
      totalScore = Score s\<rparr>"

text \<open>A record with a risk total of 0, beside a record with no risk record at all.\<close>

definition zeroScoreApys :: "ProtocolAPY list" where
  "zeroScoreApys = [apyRecord ''kamino'' (1 / 16) 46000000, apyRecord ''orca'' (1 / 32) 5000000]"

definition zeroScoreRisks :: "RiskScore list" where
  "zeroScoreRisks = [riskRecord ''kamino'' 0]"

text \<open>Four records whose APYs and scores are doubles with exact products.\<close>

definition binaryApys :: "ProtocolAPY list" where
  "binaryApys =
     [apyRecord ''save'' (1 / 32) 11000000, apyRecord ''drift'' (1 / 8) 186000000,
      apyRecord ''kamino'' (1 / 16) 46000000, apyRecord ''jito'' (1 / 16) 1500000000]"

definition binaryRisks :: "RiskScore list" where
  "binaryRisks =
     [riskRecord ''save'' 50, riskRecord ''drift'' 25, riskRecord ''kamino'' 100,
      riskRecord ''jito'' 100]"

text \<open>A cross-chain record: a lending pool with low liquidity risk.\<close>

definition ccRecord :: "string \<Rightarrow> ChainId \<Rightarrow> real \<Rightarrow> real \<Rightarrow> real \<Rightarrow> CrossChainAPY" where
  "ccRecord p ch a t rb =
     \<lparr>protocolId = p, ccProtocol = p, chain = ch, ccAsset = ''USDC'', apy = a, apyBase = a,
      apyReward = 0, ccTvl = t, riskBase = rb, strategyType = ''lending'',
      liquidityRisk = ''low'', ccPoolId = p, ccSymbol = ''USDC'', ccLastUpdated = 0\<rparr>"

text \<open>
  A pool on Ethereum whose APY is the double written \<open>0.365\<close>, and a pool on Base
  with no yield.
\<close>

definition aaveEthereum :: CrossChainAPY where
  "aaveEthereum = ccRecord ''aave-ethereum'' ethereum (fl (365 / 1000)) 10000000 95"

definition idleBase :: CrossChainAPY where
  "idleBase = ccRecord ''idle-base'' base 0 10000000 90"

text \<open>A vault of 1000 USD with no position.\<close>

definition idleVault :: VaultState where
  "idleVault = \<lparr>vaultPubkey = ''11111111111111111111111111111111'', totalValueUSD = 1000,
     positions = [], lastRebalance = 0, performanceSinceInception = 12 / 100\<rparr>"

section \<open>Measuring a plan\<close>

text \<open>
  The amount of a finite number; the total of a list of legs and of a list of
  transfers; and the legs whose amount is a finite number that is not negative.
\<close>

fun amountOf :: "jsnum \<Rightarrow> real" where
  "amountOf (Num a) = a"
| "amountOf PInf = 0"
| "amountOf NInf = 0"
| "amountOf NaN = 0"

definition legTotal :: "Leg list \<Rightarrow> real" where
  "legTotal ls = sum_list (map (\<lambda>l. amountOf (legAmount l)) ls)"

definition movedTotal :: "Transfer list \<Rightarrow> real" where
  "movedTotal ts = sum_list (map (\<lambda>t. amountOf (legAmount (fromLeg t))) ts)"

fun finiteAmount :: "jsnum \<Rightarrow> bool" where
  "finiteAmount (Num a) = (0 \<le> a)"
| "finiteAmount PInf = False"
| "finiteAmount NInf = False"
| "finiteAmount NaN = False"

definition finiteLeg :: "Leg \<Rightarrow> bool" where
  "finiteLeg l = finiteAmount (legAmount l)"

definition finiteTransfer :: "Transfer \<Rightarrow> bool" where
  "finiteTransfer t = (finiteLeg (fromLeg t) \<and> legAmount (toLeg t) = legAmount (fromLeg t))"

fun finiteWeight :: "jsnum \<Rightarrow> bool" where
  "finiteWeight (Num a) = True"
| "finiteWeight PInf = False"
| "finiteWeight NInf = False"
| "finiteWeight NaN = False"

text \<open>
  A vault of 1000 USD with a tenth of it idle, its target, and the two lists and the
  transfers that the planner computes for them.
\<close>

definition exampleCurrent :: "real jsmap" where
  "exampleCurrent =
     [(''kamino'', 500005 / 1000000), (''save'', 299995 / 1000000), (''drift'', 1 / 10)]"

definition exampleTarget :: "jsnum jsmap" where
  "exampleTarget =
     [(''kamino'', Num 0), (''save'', Num 0), (''jito'', Num (5 / 10)),
      (''jupiter'', Num (3 / 10)), (''drift'', Num (2 / 10))]"

definition exampleDecreases :: "Leg list" where
  "exampleDecreases =
     [\<lparr>legProtocol = ''kamino'', legAmount = Num (500005 / 1000)\<rparr>,
      \<lparr>legProtocol = ''save'', legAmount = Num (299995 / 1000)\<rparr>]"

definition exampleIncreases :: "Leg list" where
  "exampleIncreases =
     [\<lparr>legProtocol = ''jito'', legAmount = Num 500\<rparr>,
      \<lparr>legProtocol = ''jupiter'', legAmount = Num 300\<rparr>,
      \<lparr>legProtocol = ''drift'', legAmount = Num 100\<rparr>]"

definition exampleTransfers :: "Transfer list" where
  "exampleTransfers =
     [\<lparr>fromLeg = \<lparr>legProtocol = ''kamino'', legAmount = Num 500\<rparr>,
       toLeg = \<lparr>legProtocol = ''jito'', legAmount = Num 500\<rparr>\<rparr>,
      \<lparr>fromLeg = \<lparr>legProtocol = ''save'', legAmount = Num (299995 / 1000)\<rparr>,
       toLeg = \<lparr>legProtocol = ''jupiter'', legAmount = Num (299995 / 1000)\<rparr>\<rparr>]"

text \<open>The amounts on which the matching loop makes no progress.\<close>

fun unbounded :: "jsnum \<Rightarrow> bool" where
  "unbounded (Num a) = False"
| "unbounded PInf = True"
| "unbounded NInf = False"
| "unbounded NaN = True"

text \<open>A ranking with two negative yields, whose capped shares sum to 0.\<close>

definition negativeYieldRanked :: "Ranked list" where
  "negativeYieldRanked =
     [rankedEntry ''jito'' (14 / 10) 100, rankedEntry ''kamino'' (- (2 / 10)) 100,
      rankedEntry ''save'' (- (2 / 10)) 100]"

section \<open>Maps and slices\<close>

lemma trunc_ge: "real (length xs) \<le> e \<Longrightarrow> int (length xs) \<le> trunc e"
  unfolding trunc_def by (auto simp: le_floor_iff)

lemma slice0_all: "real (length xs) \<le> e \<Longrightarrow> slice0 xs e = xs"
  using trunc_ge[of xs e] by (simp add: slice0_def Let_def min_def)

lemma protocolsToUse_all: "protocolsToUse c ranked = ranked"
  unfolding protocolsToUse_def by (rule slice0_all) simp

lemma map_fst_map_set:
  "map fst (map_set m k v) = (if k \<in> fst ` set m then map fst m else map fst m @ [k])"
  by (induction m) (force simp: image_iff)+

lemma keys_map_set: "fst ` set (map_set m k v) = insert k (fst ` set m)"
proof -
  have "set (map fst (map_set m k v)) = insert k (set (map fst m))"
    unfolding map_fst_map_set by auto
  then show ?thesis by simp
qed

lemma length_map_set: "length (map_set m k v) \<le> Suc (length m)"
  by (induction m) auto

lemma map_set_present: "k \<in> fst ` set m \<Longrightarrow> map fst (map_set m k v) = map fst m"
  by (simp add: map_fst_map_set)

lemma map_set_absent: "k \<notin> fst ` set m \<Longrightarrow> map_set m k v = m @ [(k, v)]"
  by (induction m) auto

lemma map_set_append: "k \<notin> fst ` set xs \<Longrightarrow> map_set (xs @ ys) k v = xs @ map_set ys k v"
  by (induction xs) auto

lemma keys_fold_set:
  "fst ` set (foldl (\<lambda>m p. map_set m (f p) (g p)) acc ps) = fst ` set acc \<union> f ` set ps"
  by (induction ps arbitrary: acc) (auto simp: keys_map_set)

lemma length_fold_set:
  "length (foldl (\<lambda>m p. map_set m (f p) (g p)) acc ps) \<le> length acc + length ps"
proof (induction ps arbitrary: acc)
  case Nil
  then show ?case by simp
next
  case (Cons p ps)
  have "length (foldl (\<lambda>m p. map_set m (f p) (g p)) (map_set acc (f p) (g p)) ps)
          \<le> length (map_set acc (f p) (g p)) + length ps"
    by (rule Cons.IH)
  also have "\<dots> \<le> Suc (length acc) + length ps"
    using length_map_set[of acc "f p" "g p"] by simp
  finally show ?case by simp
qed

lemma fold_set_distinct:
  "distinct (map fst acc @ map f ps) \<Longrightarrow>
   foldl (\<lambda>m p. map_set m (f p) (g p)) acc ps = acc @ map (\<lambda>p. (f p, g p)) ps"
proof (induction ps arbitrary: acc)
  case Nil
  then show ?case by simp
next
  case (Cons p ps)
  from Cons.prems have notin: "f p \<notin> fst ` set acc" by auto
  then have step: "map_set acc (f p) (g p) = acc @ [(f p, g p)]" by (rule map_set_absent)
  from Cons.prems have "distinct (map fst (acc @ [(f p, g p)]) @ map f ps)" by auto
  from Cons.IH[OF this] show ?case by (simp add: step)
qed

lemma keys_update_fold:
  "fst ` set kvs \<subseteq> fst ` set acc \<Longrightarrow>
   map fst (foldl (\<lambda>acc (k, w). map_set acc k (h w)) acc kvs) = map fst acc"
proof (induction kvs arbitrary: acc)
  case Nil
  then show ?case by simp
next
  case (Cons kv kvs)
  obtain k w where kv: "kv = (k, w)" by (cases kv)
  from Cons.prems kv have kin: "k \<in> fst ` set acc" by auto
  have keys: "map fst (map_set acc k (h w)) = map fst acc" using kin by (rule map_set_present)
  then have "fst ` set (map_set acc k (h w)) = fst ` set acc"
    by (metis list.set_map)
  with Cons.prems have "fst ` set kvs \<subseteq> fst ` set (map_set acc k (h w))" by auto
  from Cons.IH[OF this] show ?case by (simp add: kv keys)
qed

lemma keys_normalize: "map fst (normalize m) = map fst m"
  unfolding normalize_def by (rule keys_update_fold) simp

lemma update_fold_distinct:
  "distinct (map fst (pre @ kvs)) \<Longrightarrow>
   foldl (\<lambda>acc (k, w). map_set acc k (h w)) (pre @ kvs) kvs = pre @ map (\<lambda>(k, w). (k, h w)) kvs"
proof (induction kvs arbitrary: pre)
  case Nil
  then show ?case by simp
next
  case (Cons kv kvs)
  obtain k w where kv: "kv = (k, w)" by (cases kv)
  from Cons.prems kv have "k \<notin> fst ` set pre" by auto
  then have step: "map_set (pre @ (k, w) # kvs) k (h w) = (pre @ [(k, h w)]) @ kvs"
    by (simp add: map_set_append)
  from Cons.prems kv have "distinct (map fst ((pre @ [(k, h w)]) @ kvs))" by auto
  from Cons.IH[OF this] show ?case by (simp add: kv step)
qed

lemma normalize_distinct:
  "distinct (map fst m) \<Longrightarrow> normalize m = map (\<lambda>(k, w). (k, jdiv w (totalAllocation m))) m"
  unfolding normalize_def using update_fold_distinct[of "[]" m] by simp

lemma keys_cappedAllocation: "fst ` set (cappedAllocation c ps) = rkProtocol ` set ps"
  unfolding cappedAllocation_def by (simp add: keys_fold_set)

lemma length_cappedAllocation: "length (cappedAllocation c ps) \<le> length ps"
  unfolding cappedAllocation_def
  using length_fold_set[of rkProtocol "cappedWeight c (totalWeight ps)" "[]" ps] by simp

lemma length_normalize: "length (normalize m) = length m"
  by (metis keys_normalize length_map)

lemma values_map_set: "snd ` set (map_set m k v) \<subseteq> insert v (snd ` set m)"
proof (induction m)
  case Nil
  then show ?case by simp
next
  case (Cons e m)
  obtain k' v' where e: "e = (k', v')" by (cases e)
  show ?case
  proof (cases "k' = k")
    case True
    then show ?thesis by (auto simp: e)
  next
    case False
    with Cons.IH show ?thesis by (auto simp: e)
  qed
qed

lemma values_fold_set:
  "snd ` set (foldl (\<lambda>m p. map_set m (f p) (g p)) acc ps) \<subseteq> snd ` set acc \<union> g ` set ps"
proof (induction ps arbitrary: acc)
  case Nil
  then show ?case by simp
next
  case (Cons p ps)
  have "snd ` set (foldl (\<lambda>m p. map_set m (f p) (g p)) (map_set acc (f p) (g p)) ps)
          \<subseteq> snd ` set (map_set acc (f p) (g p)) \<union> g ` set ps"
    by (rule Cons.IH)
  also have "\<dots> \<subseteq> insert (g p) (snd ` set acc) \<union> g ` set ps"
    using values_map_set[of acc "f p" "g p"] by blast
  finally show ?case by auto
qed

lemma values_update_fold:
  "snd ` set (foldl (\<lambda>acc (k, w). map_set acc k (h w)) acc kvs)
     \<subseteq> snd ` set acc \<union> h ` snd ` set kvs"
proof (induction kvs arbitrary: acc)
  case Nil
  then show ?case by simp
next
  case (Cons kv kvs)
  obtain k w where kv: "kv = (k, w)" by (cases kv)
  have "snd ` set (foldl (\<lambda>acc (k, w). map_set acc k (h w)) (map_set acc k (h w)) kvs)
          \<subseteq> snd ` set (map_set acc k (h w)) \<union> h ` snd ` set kvs"
    by (rule Cons.IH)
  also have "\<dots> \<subseteq> insert (h w) (snd ` set acc) \<union> h ` snd ` set kvs"
    using values_map_set[of acc k "h w"] by blast
  finally show ?case by (auto simp: kv)
qed

section \<open>Rounding\<close>

text \<open>
  The rounding picks the nearest multiple of the quantum; once the exponent and the
  integer are known, a rounded value is checked by arithmetic.
\<close>

lemma roundEven_near: "\<bar>real_of_int (roundEven x) - x\<bar> \<le> 1 / 2"
  unfolding roundEven_def Let_def by (auto; linarith)

lemma roundEven_eq: "\<bar>x - real_of_int m\<bar> < 1 / 2 \<Longrightarrow> roundEven x = m"
proof -
  assume a: "\<bar>x - real_of_int m\<bar> < 1 / 2"
  have "\<bar>real_of_int (roundEven x) - x\<bar> \<le> 1 / 2" by (rule roundEven_near)
  with a have "\<bar>real_of_int (roundEven x) - real_of_int m\<bar> < 1" by linarith
  then have "\<bar>roundEven x - m\<bar> < 1" by linarith
  then show ?thesis by simp
qed

lemma floor_log2:
  assumes "2 powr real_of_int e \<le> \<bar>x\<bar>" and "\<bar>x\<bar> < 2 powr (real_of_int e + 1)"
  shows "\<lfloor>log 2 \<bar>x\<bar>\<rfloor> = e"
proof -
  have pos: "0 < \<bar>x\<bar>" using assms(1) powr_gt_zero[of 2 "real_of_int e"] by linarith
  have "real_of_int e \<le> log 2 \<bar>x\<bar>" using assms(1) pos by (simp add: le_log_iff)
  moreover have "log 2 \<bar>x\<bar> < real_of_int e + 1" using assms(2) pos by (simp add: log_less_iff)
  ultimately show ?thesis by linarith
qed

lemma fl_eval:
  assumes "2 powr real_of_int e \<le> \<bar>x\<bar>" and "\<bar>x\<bar> < 2 powr (real_of_int e + 1)"
    and "- 1022 \<le> e"
    and "\<bar>x / 2 powr (real_of_int e - 52) - real_of_int m\<bar> < 1 / 2"
  shows "fl x = real_of_int m * 2 powr (real_of_int e - 52)"
proof -
  have e: "\<lfloor>log 2 \<bar>x\<bar>\<rfloor> = e" using assms(1,2) by (rule floor_log2)
  have q: "quantum x = 2 powr (real_of_int e - 52)"
    using assms(3) by (simp add: quantum_def e max_def)
  have nz: "x \<noteq> 0" using assms(1) powr_gt_zero[of 2 "real_of_int e"] by auto
  show ?thesis using nz assms(4) by (simp add: fl_def q roundEven_eq)
qed

text \<open>In the normal range the rounding error is at most the value over 2 to the power 53.\<close>

lemma fl_standard:
  assumes "2 powr (- 1022) \<le> \<bar>x\<bar>"
  shows "\<bar>fl x - x\<bar> \<le> 2 powr (- 53) * \<bar>x\<bar>"
proof -
  have pos: "0 < \<bar>x\<bar>" using assms powr_gt_zero[of 2 "- 1022"] by linarith
  then have nz: "x \<noteq> 0" by simp
  define e where "e = \<lfloor>log 2 \<bar>x\<bar>\<rfloor>"
  have "- 1022 \<le> log 2 \<bar>x\<bar>" using assms pos by (simp add: le_log_iff)
  then have e_ge: "- 1022 \<le> e" unfolding e_def by linarith
  have "real_of_int e \<le> log 2 \<bar>x\<bar>" unfolding e_def by simp
  then have lo: "2 powr real_of_int e \<le> \<bar>x\<bar>" using pos by (simp add: le_log_iff)
  define q where "q = 2 powr (real_of_int e - 52)"
  have q: "quantum x = q" using e_ge by (simp add: quantum_def e_def[symmetric] q_def max_def)
  have qpos: "0 < q" by (simp add: q_def)
  define m where "m = roundEven (x / q)"
  have near: "\<bar>real_of_int m - x / q\<bar> \<le> 1 / 2" unfolding m_def by (rule roundEven_near)
  have "fl x - x = (real_of_int m - x / q) * q" using nz qpos by (simp add: fl_def q m_def field_simps)
  then have "\<bar>fl x - x\<bar> = \<bar>real_of_int m - x / q\<bar> * q" using qpos by (simp add: abs_mult)
  also have "\<dots> \<le> (1 / 2) * q" using near qpos by (intro mult_right_mono) auto
  also have "(1 / 2) * q = 2 powr (- 53) * 2 powr real_of_int e"
    unfolding q_def by (simp add: powr_diff powr_minus field_simps)
  also have "\<dots> \<le> 2 powr (- 53) * \<bar>x\<bar>" using lo by (intro mult_left_mono) auto
  finally show ?thesis .
qed

lemma fl_bounds:
  assumes "2 powr (- 1022) \<le> x"
  shows "x * (1 - 1 / 2 ^ 53) \<le> fl x" and "fl x \<le> x * (1 + 1 / 2 ^ 53)"
proof -
  have pos: "0 < x" using assms powr_gt_zero[of 2 "- 1022"] by linarith
  have "\<bar>fl x - x\<bar> \<le> 2 powr (- 53) * \<bar>x\<bar>" using assms pos by (intro fl_standard) simp
  then have "\<bar>fl x - x\<bar> \<le> x / 2 ^ 53" using pos by (simp add: powr_minus field_simps)
  then have "fl x - x \<le> x / 2 ^ 53" and "x - fl x \<le> x / 2 ^ 53"
    by linarith+
  then show "x * (1 - 1 / 2 ^ 53) \<le> fl x" and "fl x \<le> x * (1 + 1 / 2 ^ 53)"
    by (simp_all add: algebra_simps)
qed

text \<open>Doubles that the examples use.\<close>

lemma fl_1: "fl 1 = 1"
  using fl_eval[of 0 1 "2 ^ 52"] by (simp add: powr_minus)

lemma fl_half: "fl (1 / 2) = 1 / 2"
  using fl_eval[of "- 1" "1 / 2" "2 ^ 52"] by (simp add: powr_minus)

lemma fl_quarter: "fl (1 / 4) = 1 / 4"
  using fl_eval[of "- 2" "1 / 4" "2 ^ 52"] by (simp add: powr_minus)

lemma fl_16: "fl (1 / 16) = 1 / 16"
  using fl_eval[of "- 4" "1 / 16" "2 ^ 52"] by (simp add: powr_minus)

lemma fl_32: "fl (1 / 32) = 1 / 32"
  using fl_eval[of "- 5" "1 / 32" "2 ^ 52"] by (simp add: powr_minus)

lemma fl_64: "fl (1 / 64) = 1 / 64"
  using fl_eval[of "- 6" "1 / 64" "2 ^ 52"] by (simp add: powr_minus)

lemma fl_0: "fl 0 = 0"
  by (simp add: fl_def)

lemma fl_7: "fl 7 = 7"
  using fl_eval[of 2 7 7881299347898368] by (simp add: powr_minus)

text \<open>Crude bounds, and the range in which a rounded value is a finite double.\<close>

lemma normal_small: "1 / 2 ^ 1022 \<le> x \<Longrightarrow> 2 powr (- 1022) \<le> x"
  for x :: real
  by (simp add: powr_minus)

lemma fl_crude:
  assumes "1 / 2 ^ 1022 \<le> x"
  shows "x / 2 \<le> fl x" and "fl x \<le> 2 * x"
proof -
  have n: "2 powr (- 1022) \<le> x" using assms by (rule normal_small)
  have pos: "0 < x" using assms by (auto intro: less_le_trans[rotated])
  have "x / 2 \<le> x * (1 - 1 / 2 ^ 53)" using pos by simp
  with fl_bounds(1)[OF n] show "x / 2 \<le> fl x" by linarith
  have "x * (1 + 1 / 2 ^ 53) \<le> 2 * x" using pos by simp
  with fl_bounds(2)[OF n] show "fl x \<le> 2 * x" by linarith
qed

lemma dround_Num: "\<bar>fl x\<bar> < 2 ^ 1024 \<Longrightarrow> dround x = Num (fl x)"
  by (simp add: dround_def Let_def)

text \<open>Below half the smallest double a positive number rounds to 0.\<close>

lemma fl_underflow:
  assumes "0 < x" and "x < 2 powr (- 1075)"
  shows "fl x = 0"
proof -
  have "log 2 x < - 1075" using assms by (simp add: log_less_iff)
  then have "\<lfloor>log 2 \<bar>x\<bar>\<rfloor> \<le> - 1022" using assms(1) by (simp add: floor_le_iff)
  then have q: "quantum x = 2 powr (- 1074)" by (simp add: quantum_def max_def)
  have "x / 2 powr (- 1074) < 2 powr (- 1075) / 2 powr (- 1074)"
    using assms(2) by (simp add: divide_strict_right_mono)
  also have "2 powr (- 1075) / 2 powr (- 1074) = (1 / 2 :: real)"
    by (simp add: powr_diff[symmetric])
  finally have "x / 2 powr (- 1074) < 1 / 2" .
  moreover have "0 < x / 2 powr (- 1074)" using assms(1) by simp
  ultimately have "\<bar>x / 2 powr (- 1074) - real_of_int 0\<bar> < 1 / 2" by linarith
  then have "roundEven (x / 2 powr (- 1074)) = 0" by (rule roundEven_eq)
  then show ?thesis by (simp add: fl_def q)
qed


section \<open>The Allocation Optimizer\<close>

lemmas allocation_defs =
  calculateOptimalAllocation_def normalize_def cappedAllocation_def protocolsToUse_def
  slice0_def trunc_def totalWeight_def cappedWeight_def totalAllocation_def

text \<open>
  Claim C10. The selection \<open>slice(0, max(minProtocolsForDiversity, length))\<close> is the
  whole ranked list, whatever the configuration; the plan has an entry for every
  protocol of the list and for no other; and a list shorter than the diversity floor
  gives a plan with fewer protocols than the floor.
\<close>

theorem diversity_floor_never_constrains:
  "protocolsToUse c ranked = ranked \<and>
   fst ` set (calculateOptimalAllocation c ranked) = rkProtocol ` set ranked \<and>
   (real (length ranked) < minProtocolsForDiversity c \<longrightarrow>
      real (length (calculateOptimalAllocation c ranked)) < minProtocolsForDiversity c)"
proof -
  have keys: "fst ` set (calculateOptimalAllocation c ranked) = rkProtocol ` set ranked"
    unfolding calculateOptimalAllocation_def protocolsToUse_all
    by (metis keys_normalize keys_cappedAllocation list.set_map)
  have len: "length (calculateOptimalAllocation c ranked) \<le> length ranked"
    unfolding calculateOptimalAllocation_def protocolsToUse_all
    by (simp add: length_normalize length_cappedAllocation)
  show ?thesis using keys len protocolsToUse_all by auto
qed

theorem diversity_floor_witness:
  "real (length [rankedEntry ''kamino'' (7 / 100) 88, rankedEntry ''save'' (3 / 100) 60])
     < minProtocolsForDiversity DEFAULT_CONFIG \<and>
   real (length (calculateOptimalAllocation DEFAULT_CONFIG
      [rankedEntry ''kamino'' (7 / 100) 88, rankedEntry ''save'' (3 / 100) 60]))
     < minProtocolsForDiversity DEFAULT_CONFIG"
  using diversity_floor_never_constrains
    [of DEFAULT_CONFIG "[rankedEntry ''kamino'' (7 / 100) 88, rankedEntry ''save'' (3 / 100) 60]"]
  by (simp add: DEFAULT_CONFIG_def)

text \<open>
  Claim C2. With every risk-adjusted APY equal to 0 the optimizer does divide by zero:
  the sum of the shares is 0, each share is \<open>0 / 0\<close>, and every weight of the plan is
  NaN, not an equal share.
\<close>

theorem zero_yield_allocation_is_nan:
  "calculateOptimalAllocation DEFAULT_CONFIG
     [rankedEntry ''kamino'' 0 88, rankedEntry ''save'' 0 72]
   = [(''kamino'', NaN), (''save'', NaN)]"
  by (simp add: allocation_defs DEFAULT_CONFIG_def rankedEntry_def)

lemma totalWeight_acc:
  "foldl (\<lambda>sum p. sum + riskAdjustedAPY p) a ps = a + sum_list (map riskAdjustedAPY ps)"
  by (induction ps arbitrary: a) auto

lemma totalWeight_sum: "totalWeight ps = sum_list (map riskAdjustedAPY ps)"
  by (simp add: totalWeight_def totalWeight_acc)

lemma foldl_jadd_Num: "foldl jadd (Num a) (map Num xs) = Num (a + sum_list xs)"
  by (induction xs arbitrary: a) (auto simp: add.assoc)

lemma sum_list_pos_member:
  fixes f :: "'a \<Rightarrow> real"
  assumes "\<forall>x\<in>set xs. 0 \<le> f x" and "x \<in> set xs" and "0 < f x"
  shows "0 < sum_list (map f xs)"
  using assms
proof (induction xs)
  case Nil
  then show ?case by simp
next
  case (Cons y ys)
  have nonneg: "0 \<le> sum_list (map f ys)"
    using Cons.prems(1) by (intro sum_list_nonneg) auto
  show ?case
  proof (cases "x = y")
    case True
    with Cons.prems(3) nonneg show ?thesis by simp
  next
    case False
    with Cons.prems have "x \<in> set ys" by simp
    with Cons.IH Cons.prems have "0 < sum_list (map f ys)" by simp
    moreover have "0 \<le> f y" using Cons.prems(1) by simp
    ultimately show ?thesis by simp
  qed
qed

lemma sum_list_pos_exists:
  fixes f :: "'a \<Rightarrow> real"
  assumes "0 < sum_list (map f xs)"
  shows "\<exists>x\<in>set xs. 0 < f x"
proof (rule ccontr)
  assume "\<not> (\<exists>x\<in>set xs. 0 < f x)"
  then have "\<forall>x\<in>set xs. f x \<le> 0" by (auto simp: not_less)
  then have "sum_list (map f xs) \<le> 0" by (induction xs) auto
  with assms show False by simp
qed

lemma sum_list_divide_const:
  fixes f :: "'a \<Rightarrow> real"
  shows "sum_list (map (\<lambda>x. f x / d) xs) = sum_list (map f xs) / d"
  by (induction xs) (auto simp: add_divide_distrib)

text \<open>
  Whatever the list and the configuration: when every risk-adjusted APY is 0, every
  weight of the plan is NaN.
\<close>

lemma zero_yields_all_nan:
  assumes "\<forall>p\<in>set ranked. riskAdjustedAPY p = 0"
  shows "snd ` set (calculateOptimalAllocation c ranked) \<subseteq> {NaN}"
proof -
  have "sum_list (map riskAdjustedAPY ranked) = 0"
    using assms by (induction ranked) auto
  then have tw: "totalWeight ranked = 0"
    by (simp add: totalWeight_sum)
  have cw: "cappedWeight c 0 p = NaN" if "p \<in> set ranked" for p
    using assms that by (simp add: cappedWeight_def)
  have "snd ` set (cappedAllocation c ranked) \<subseteq> cappedWeight c 0 ` set ranked"
    unfolding cappedAllocation_def tw
    using values_fold_set[of rkProtocol "cappedWeight c 0" "[]" ranked] by simp
  with cw have capped: "snd ` set (cappedAllocation c ranked) \<subseteq> {NaN}" by auto
  define m where "m = cappedAllocation c ranked"
  have "snd ` set (normalize m) \<subseteq> snd ` set m \<union> (\<lambda>w. jdiv w (totalAllocation m)) ` snd ` set m"
    unfolding normalize_def by (rule values_update_fold)
  also have "\<dots> \<subseteq> {NaN}"
    using capped unfolding m_def[symmetric] by auto
  finally show ?thesis
    by (simp add: calculateOptimalAllocation_def protocolsToUse_all m_def)
qed

text \<open>
  Claim C1, as the code has it. For a ranked list with distinct protocols whose
  risk-adjusted APYs are non-negative with a positive sum, and a positive cap, the plan
  gives every protocol of the list a finite weight; the weights are non-negative and
  sum to 1 (exactly, over the reals). The cap bounds the share before the weights are
  normalised: the weights stay below the cap when no share exceeds it.
\<close>

theorem allocation_weights_normalised:
  assumes dist: "distinct (map rkProtocol ranked)"
      and nonneg: "\<forall>p\<in>set ranked. 0 \<le> riskAdjustedAPY p"
      and pos: "0 < totalWeight ranked"
      and cap: "0 < maxAllocationPerProtocol c"
  shows "\<exists>ws. calculateOptimalAllocation c ranked = zip (map rkProtocol ranked) (map Num ws) \<and>
           length ws = length ranked \<and>
           (\<forall>w\<in>set ws. 0 \<le> w) \<and>
           sum_list ws = 1 \<and>
           ((\<forall>p\<in>set ranked. riskAdjustedAPY p / totalWeight ranked \<le> maxAllocationPerProtocol c)
              \<longrightarrow> (\<forall>w\<in>set ws. w \<le> maxAllocationPerProtocol c))"
proof -
  define T where "T = totalWeight ranked"
  define cp where "cp = maxAllocationPerProtocol c"
  define cs where "cs = (\<lambda>p::Ranked. min (riskAdjustedAPY p / T) cp)"
  define C where "C = sum_list (map cs ranked)"
  define ws where "ws = map (\<lambda>p. cs p / C) ranked"
  have Tpos: "0 < T" using pos by (simp add: T_def)
  have cs_nonneg: "\<forall>p\<in>set ranked. 0 \<le> cs p"
    using nonneg Tpos cap by (auto simp: cs_def cp_def)
  have capped: "cappedWeight c T p = Num (cs p)" for p
    using Tpos by (simp add: cappedWeight_def cs_def cp_def)
  have alloc1: "cappedAllocation c ranked = map (\<lambda>p. (rkProtocol p, Num (cs p))) ranked"
    unfolding cappedAllocation_def T_def[symmetric]
    using fold_set_distinct[of "[]" rkProtocol ranked "cappedWeight c T"] dist
    by (simp add: capped)
  have total: "totalAllocation (cappedAllocation c ranked) = Num C"
    using foldl_jadd_Num[of 0 "map cs ranked"]
    by (simp add: totalAllocation_def alloc1 C_def comp_def)
  obtain q where q: "q \<in> set ranked" "0 < riskAdjustedAPY q"
    using sum_list_pos_exists[of riskAdjustedAPY ranked] pos by (auto simp: totalWeight_sum)
  have "0 < cs q" using q Tpos cap by (simp add: cs_def cp_def)
  with cs_nonneg q have Cpos: "0 < C"
    unfolding C_def by (intro sum_list_pos_member[of ranked cs q]) auto
  have keys: "distinct (map fst (cappedAllocation c ranked))"
    using dist by (simp add: alloc1 comp_def)
  have result: "calculateOptimalAllocation c ranked = map (\<lambda>p. (rkProtocol p, Num (cs p / C))) ranked"
    unfolding calculateOptimalAllocation_def protocolsToUse_all
    using Cpos by (simp add: normalize_distinct[OF keys] total) (simp add: alloc1)
  have shape: "calculateOptimalAllocation c ranked = zip (map rkProtocol ranked) (map Num ws)"
    by (simp add: result ws_def zip_map_map zip_same_conv_map)
  have len: "length ws = length ranked" by (simp add: ws_def)
  have ws_nonneg: "\<forall>w\<in>set ws. 0 \<le> w"
    using cs_nonneg Cpos by (auto simp: ws_def)
  have sum1: "sum_list ws = 1"
    using Cpos by (simp add: ws_def sum_list_divide_const C_def[symmetric])
  have under: "\<forall>w\<in>set ws. w \<le> maxAllocationPerProtocol c"
    if h: "\<forall>p\<in>set ranked. riskAdjustedAPY p / totalWeight ranked \<le> maxAllocationPerProtocol c"
  proof -
    have eq: "cs p = riskAdjustedAPY p / T" if "p \<in> set ranked" for p
      using h that by (simp add: cs_def cp_def T_def min_def)
    have "C = sum_list (map (\<lambda>p. riskAdjustedAPY p / T) ranked)"
      unfolding C_def using eq by (intro arg_cong[where f = sum_list] map_cong) auto
    also have "\<dots> = 1"
      using Tpos by (simp add: sum_list_divide_const totalWeight_sum[symmetric] T_def[symmetric])
    finally have "C = 1" .
    then show ?thesis using h eq by (auto simp: ws_def T_def)
  qed
  show ?thesis
    using shape len ws_nonneg sum1 under by blast
qed

theorem allocation_weights_normalised_witness:
  "distinct (map rkProtocol skewedRanked) \<and>
   list_all (\<lambda>p. 0 \<le> riskAdjustedAPY p) skewedRanked \<and>
   0 < totalWeight skewedRanked \<and>
   0 < maxAllocationPerProtocol DEFAULT_CONFIG \<and>
   (\<exists>ws. calculateOptimalAllocation DEFAULT_CONFIG skewedRanked
            = zip (map rkProtocol skewedRanked) (map Num ws) \<and>
         length ws = length skewedRanked \<and> (\<forall>w\<in>set ws. 0 \<le> w) \<and> sum_list ws = 1)"
proof -
  have h1: "distinct (map rkProtocol skewedRanked)"
    by (simp add: skewedRanked_def rankedEntry_def)
  have h2: "\<forall>p\<in>set skewedRanked. 0 \<le> riskAdjustedAPY p"
    by (simp add: skewedRanked_def rankedEntry_def)
  have h3: "0 < totalWeight skewedRanked"
    by (simp add: skewedRanked_def rankedEntry_def totalWeight_def)
  have h4: "0 < maxAllocationPerProtocol DEFAULT_CONFIG"
    by (simp add: DEFAULT_CONFIG_def)
  from allocation_weights_normalised[OF h1 h2 h3 h4]
  obtain ws where "calculateOptimalAllocation DEFAULT_CONFIG skewedRanked
            = zip (map rkProtocol skewedRanked) (map Num ws)"
    "length ws = length skewedRanked" "\<forall>w\<in>set ws. 0 \<le> w" "sum_list ws = 1"
    by blast
  moreover from h2 have "list_all (\<lambda>p. 0 \<le> riskAdjustedAPY p) skewedRanked"
    by (simp add: list_all_iff)
  ultimately show ?thesis using h1 h3 h4 by blast
qed

text \<open>
  Claim C1, as the spec states it, fails: a single ranked protocol gets the weight 1,
  above the cap of 0.4 (no plan of one weight both sums to 1 and respects that cap).
\<close>

theorem cap_exceeded_counterexample:
  "calculateOptimalAllocation DEFAULT_CONFIG [rankedEntry ''kamino'' (7 / 100) 88]
     = [(''kamino'', Num 1)] \<and>
   maxAllocationPerProtocol DEFAULT_CONFIG < 1"
  by (simp add: allocation_defs DEFAULT_CONFIG_def rankedEntry_def)


section \<open>The Risk Scorer\<close>

text \<open>
  Each record is scored on its own. A protocol that is neither a key of the table nor a
  property of \<open>Object.prototype\<close> gets the neutral score: every component 0 and the
  total 50, whatever the other records of the list are.
\<close>

lemma getProperty_Undefined:
  "k \<notin> fst ` set obj \<Longrightarrow> k \<notin> set objectPrototypeKeys \<Longrightarrow> getProperty obj k = Undefined"
proof -
  assume "k \<notin> fst ` set obj" and k: "k \<notin> set objectPrototypeKeys"
  then have "map_of obj k = None" by (simp add: map_of_eq_None_iff)
  with k show ?thesis by (simp add: getProperty_def)
qed

lemma calculateRiskScores_append:
  "calculateRiskScores (xs @ ys) = calculateRiskScores xs @ calculateRiskScores ys"
  by (simp add: calculateRiskScores_def)

lemma absent_protocol_neutral_score:
  assumes "protocol u \<notin> fst ` set PROTOCOL_CONFIG" and "protocol u \<notin> set objectPrototypeKeys"
  shows "calculateRiskScores (xs @ u # ys)
           = calculateRiskScores xs
             @ \<lparr>rsProtocol = protocol u, tvlScore = 0, auditScore = Score 0, ageScore = 0,
                 exploitScore = 0, totalScore = Score 50\<rparr>
             # calculateRiskScores ys"
  using getProperty_Undefined[OF assms] by (simp add: calculateRiskScores_def riskScoreOf_def)

text \<open>
  Claim C9. A record whose protocol has no entry in the table does not always get the
  neutral score. The lookup \<open>PROTOCOL_CONFIG[apy.protocol]\<close> also finds the properties
  that every object inherits, and the guard \<open>!config\<close> lets them through: for the
  protocol \<open>toString\<close> the audit score and the total are NaN, and the age and exploit
  components are 20 and 25, not 0.
\<close>

theorem inherited_property_scores_nan:
  "protocol (apyRecord ''toString'' (5 / 100) 1000000) \<notin> fst ` set PROTOCOL_CONFIG \<and>
   calculateRiskScores [apyRecord ''toString'' (5 / 100) 1000000]
     = [\<lparr>rsProtocol = ''toString'', tvlScore = 0, auditScore = ScoreNaN, ageScore = 20,
         exploitScore = 25, totalScore = ScoreNaN\<rparr>]"
  by (simp add: calculateRiskScores_def riskScoreOf_def getProperty_def PROTOCOL_CONFIG_def
      objectPrototypeKeys_def apyRecord_def round1_def jsRound_def)


section \<open>The Opportunity Ranker\<close>

lemma insertCmp_insort:
  "insertCmp (\<lambda>a b. f b - f a) x ys = insort_key (\<lambda>r. - f r) x ys"
  for f :: "'a \<Rightarrow> real"
  by (induction ys) auto

lemma jsSort_sort_key:
  "jsSort (\<lambda>a b. f b - f a) xs = sort_key (\<lambda>r. - f r) xs"
  for f :: "'a \<Rightarrow> real"
  unfolding jsSort_def sort_key_def
  by (induction xs) (auto simp: insertCmp_insort)

lemma jsSort_descending:
  "sorted_wrt (\<lambda>a b. f a \<ge> f b) (jsSort (\<lambda>a b. f b - f a) xs)"
  for f :: "'a \<Rightarrow> real"
proof -
  have "sorted (map (\<lambda>r. - f r) (sort_key (\<lambda>r. - f r) xs))" by (rule sorted_sort_key)
  then show ?thesis
    by (simp add: jsSort_sort_key sorted_map)
qed

lemma jsSort_stable:
  "filter (\<lambda>r. f r = k) (jsSort (\<lambda>a b. f b - f a) xs) = filter (\<lambda>r. f r = k) xs"
  for f :: "'a \<Rightarrow> real"
proof -
  have "filter (\<lambda>r. - f r = - k) (sort_key (\<lambda>r. - f r) xs) = filter (\<lambda>r. - f r = - k) xs"
    by (rule sort_key_stable)
  then show ?thesis by (simp add: jsSort_sort_key)
qed

lemma mset_jsSort: "mset (jsSort (\<lambda>a b. f b - f a) xs) = mset xs"
  for f :: "'a \<Rightarrow> real"
  by (simp add: jsSort_sort_key)

lemma set_jsSort: "set (jsSort (\<lambda>a b. f b - f a) xs) = set xs"
  for f :: "'a \<Rightarrow> real"
  by (simp add: jsSort_sort_key)

text \<open>
  Claim C5, as the spec states it, fails. The ranker compares the minimum with
  \<open>risk?.totalScore || 50\<close>, not with the risk total of the entry: with a minimum of
  40, a record whose risk total is 0 is returned with the score 50, and so is a record
  with no risk record.
\<close>

theorem zero_score_counterexample:
  "rankOpportunities zeroScoreApys zeroScoreRisks 40
     = [\<lparr>rkProtocol = ''kamino'', rkTotalAPY = 1 / 16, riskScore = 50, riskAdjustedAPY = 1 / 32\<rparr>,
        \<lparr>rkProtocol = ''orca'', rkTotalAPY = 1 / 32, riskScore = 50, riskAdjustedAPY = 1 / 64\<rparr>] \<and>
   map totalScore zeroScoreRisks = [Score 0] \<and>
   find (\<lambda>r. rsProtocol r = ''orca'') zeroScoreRisks = None"
  by (simp add: rankOpportunities_def zeroScoreApys_def zeroScoreRisks_def apyRecord_def
      riskRecord_def opportunityOf_def scoreOr_def jsSort_def fl_half fl_32 fl_64)

text \<open>
  Claim C5, as the code has it. When every risk record has a total that is a number
  other than 0, an opportunity is made for every yield record: its risk score is the
  total of the first risk record of the same protocol (50 when there is none), and its
  risk-adjusted APY is the double product of the APY and the score over 100.
  \<open>rankOpportunities\<close> returns exactly the opportunities whose risk score is at least the
  minimum, each as often as it occurs; the result is sorted with the risk-adjusted APY
  non-increasing; opportunities with the same risk-adjusted APY keep their input order;
  and when no opportunity passes (in particular on empty input) the result is the
  empty list. The function is total: it has no error result.
\<close>

theorem rankOpportunities_filtered_sorted_stable:
  assumes totals: "\<forall>r\<in>set risks. \<exists>x. totalScore r = Score x \<and> x \<noteq> 0"
  shows
  "mset (rankOpportunities apys risks m)
     = mset (filter (\<lambda>r. m \<le> riskScore r) (map (opportunityOf risks) apys)) \<and>
   sorted_wrt (\<lambda>a b. riskAdjustedAPY a \<ge> riskAdjustedAPY b) (rankOpportunities apys risks m) \<and>
   (\<forall>k. filter (\<lambda>r. riskAdjustedAPY r = k) (rankOpportunities apys risks m)
        = filter (\<lambda>r. riskAdjustedAPY r = k)
            (filter (\<lambda>r. m \<le> riskScore r) (map (opportunityOf risks) apys))) \<and>
   (\<forall>r\<in>set (rankOpportunities apys risks m).
        m \<le> riskScore r \<and> riskAdjustedAPY r = fl (rkTotalAPY r * fl (riskScore r / 100))) \<and>
   ((\<forall>a\<in>set apys. riskScore (opportunityOf risks a) < m) \<longrightarrow> rankOpportunities apys risks m = []) \<and>
   (\<forall>a. rkProtocol (opportunityOf risks a) = protocol a \<and>
        rkTotalAPY (opportunityOf risks a) = totalAPY a \<and>
        Score (riskScore (opportunityOf risks a))
          = (case find (\<lambda>r. rsProtocol r = protocol a) risks of
               None \<Rightarrow> Score 50
             | Some r \<Rightarrow> totalScore r))"
proof -
  have fields: "rkProtocol (opportunityOf risks a) = protocol a \<and>
        rkTotalAPY (opportunityOf risks a) = totalAPY a \<and>
        Score (riskScore (opportunityOf risks a))
          = (case find (\<lambda>r. rsProtocol r = protocol a) risks of
               None \<Rightarrow> Score 50
             | Some r \<Rightarrow> totalScore r)" for a
  proof (cases "find (\<lambda>r. rsProtocol r = protocol a) risks")
    case None
    then show ?thesis by (simp add: opportunityOf_def scoreOr_def Let_def)
  next
    case (Some r)
    then have "r \<in> set risks" by (auto simp: find_Some_iff)
    with totals obtain x where "totalScore r = Score x" "x \<noteq> 0" by blast
    with Some show ?thesis by (simp add: opportunityOf_def scoreOr_def Let_def)
  qed
  have adj: "riskAdjustedAPY (opportunityOf risks a) =
      fl (rkTotalAPY (opportunityOf risks a) * fl (riskScore (opportunityOf risks a) / 100))" for a
    by (simp add: opportunityOf_def Let_def)
  have empty: "rankOpportunities apys risks m = []"
    if "\<forall>a\<in>set apys. riskScore (opportunityOf risks a) < m"
  proof -
    from that have "filter (\<lambda>r. m \<le> riskScore r) (map (opportunityOf risks) apys) = []"
      by (auto simp: filter_empty_conv)
    then show ?thesis by (simp add: rankOpportunities_def jsSort_def)
  qed
  show ?thesis
    unfolding rankOpportunities_def
    using empty[unfolded rankOpportunities_def]
    using fields
    by (auto simp: mset_jsSort jsSort_descending jsSort_stable set_jsSort adj simp del: mset_filter)
qed

theorem rankOpportunities_witness:
  "list_all (\<lambda>r. totalScore r \<noteq> ScoreNaN \<and> totalScore r \<noteq> Score 0) binaryRisks \<and>
   rankOpportunities binaryApys binaryRisks 40
     = [\<lparr>rkProtocol = ''kamino'', rkTotalAPY = 1 / 16, riskScore = 100, riskAdjustedAPY = 1 / 16\<rparr>,
        \<lparr>rkProtocol = ''jito'', rkTotalAPY = 1 / 16, riskScore = 100, riskAdjustedAPY = 1 / 16\<rparr>,
        \<lparr>rkProtocol = ''save'', rkTotalAPY = 1 / 32, riskScore = 50, riskAdjustedAPY = 1 / 64\<rparr>] \<and>
   sorted_wrt (\<lambda>a b. riskAdjustedAPY a \<ge> riskAdjustedAPY b)
     (rankOpportunities binaryApys binaryRisks 40) \<and>
   list_all (\<lambda>a. riskScore (opportunityOf binaryRisks a) < 200) binaryApys \<and>
   rankOpportunities binaryApys binaryRisks 200 = []"
proof -
  have h: "\<forall>r\<in>set binaryRisks. \<exists>x. totalScore r = Score x \<and> x \<noteq> 0"
    by (simp add: binaryRisks_def riskRecord_def)
  have h': "list_all (\<lambda>r. totalScore r \<noteq> ScoreNaN \<and> totalScore r \<noteq> Score 0) binaryRisks"
    by (simp add: binaryRisks_def riskRecord_def)
  have out: "rankOpportunities binaryApys binaryRisks 40
     = [\<lparr>rkProtocol = ''kamino'', rkTotalAPY = 1 / 16, riskScore = 100, riskAdjustedAPY = 1 / 16\<rparr>,
        \<lparr>rkProtocol = ''jito'', rkTotalAPY = 1 / 16, riskScore = 100, riskAdjustedAPY = 1 / 16\<rparr>,
        \<lparr>rkProtocol = ''save'', rkTotalAPY = 1 / 32, riskScore = 50, riskAdjustedAPY = 1 / 64\<rparr>]"
    by (simp add: rankOpportunities_def binaryApys_def binaryRisks_def apyRecord_def
        riskRecord_def opportunityOf_def scoreOr_def jsSort_def
        fl_1 fl_half fl_quarter fl_16 fl_32 fl_64)
  have low: "\<forall>a\<in>set binaryApys. riskScore (opportunityOf binaryRisks a) < 200"
    by (simp add: binaryApys_def binaryRisks_def apyRecord_def riskRecord_def
        opportunityOf_def scoreOr_def)
  from rankOpportunities_filtered_sorted_stable[OF h, of binaryApys 40]
  have a: "sorted_wrt (\<lambda>a b. riskAdjustedAPY a \<ge> riskAdjustedAPY b)
     (rankOpportunities binaryApys binaryRisks 40)"
    by blast
  from rankOpportunities_filtered_sorted_stable[OF h, of binaryApys 200] low
  have c: "rankOpportunities binaryApys binaryRisks 200 = []" by blast
  from low have "list_all (\<lambda>a. riskScore (opportunityOf binaryRisks a) < 200) binaryApys"
    by (simp add: list_all_iff)
  with h' out a c show ?thesis by blast
qed


section \<open>The Decision Gate\<close>



text \<open>
  Claim C7. When the request to the feed fails, \<open>fetchAllAPYs\<close> fails with the same
  error, not with an empty list, and the cycle returns that error to its caller with
  the state of the brain, and so the time of the last rebalance, unchanged.
\<close>

theorem feed_failure_propagates:
  assumes "fetchDefiLlamaPools resp = Inl e"
  shows "fetchAllAPYs ''USDC'' now resp = Inl e \<and>
         analyzeAndDecide b now resp v = Some (Inl e, b)"
  using assms by (simp add: analyzeAndDecide_def fetchAllAPYs_def)

theorem feed_failure_propagates_witness:
  "fetchDefiLlamaPools (Response False 503 None) = Inl (ApiError 503) \<and>
   analyzeAndDecide (recordRebalance 5 (newBrain DEFAULT_CONFIG)) 9 (Response False 503 None) idleVault
     = Some (Inl (ApiError 503), recordRebalance 5 (newBrain DEFAULT_CONFIG)) \<and>
   lastRebalanceTime (recordRebalance 5 (newBrain DEFAULT_CONFIG)) = Some 5"
proof -
  have h: "fetchDefiLlamaPools (Response False 503 None) = Inl (ApiError 503)" by simp
  from feed_failure_propagates[OF h, of 9 "recordRebalance 5 (newBrain DEFAULT_CONFIG)" idleVault] h
  show ?thesis by (simp add: recordRebalance_def)
qed

text \<open>The request fails in exactly three ways.\<close>

lemma fetch_failure_cases:
  "(\<exists>e. fetchDefiLlamaPools resp = Inl e) \<longleftrightarrow>
     resp = Rejected \<or> (\<exists>st body. resp = Response False st body) \<or> (\<exists>st. resp = Response True st None)"
  by (cases resp) (auto split: option.splits)

section \<open>The Rebalance Planner\<close>

lemmas planner_defs = requiredDiffs_def diffStep_def orElse_def map_get_def jsub_def
  calculateRequiredChanges_def

text \<open>The first loop makes legs for protocols of the optimal allocation only.\<close>

lemma diffStep_protocols:
  "legProtocol ` set (fst (diffStep cur tv acc (p, w))) \<union>
   legProtocol ` set (snd (diffStep cur tv acc (p, w)))
   \<subseteq> insert p (legProtocol ` set (fst acc) \<union> legProtocol ` set (snd acc))"
  by (cases acc) (auto simp: diffStep_def Let_def)

lemma foldl_diffStep_protocols:
  "legProtocol ` set (fst (foldl (diffStep cur tv) acc optimal)) \<union>
   legProtocol ` set (snd (foldl (diffStep cur tv) acc optimal))
   \<subseteq> fst ` set optimal \<union> (legProtocol ` set (fst acc) \<union> legProtocol ` set (snd acc))"
proof (induction optimal arbitrary: acc)
  case Nil
  then show ?case by simp
next
  case (Cons e es)
  obtain p w where e: "e = (p, w)" by (cases e)
  have "legProtocol ` set (fst (foldl (diffStep cur tv) (diffStep cur tv acc e) es)) \<union>
        legProtocol ` set (snd (foldl (diffStep cur tv) (diffStep cur tv acc e) es))
        \<subseteq> fst ` set es \<union> (legProtocol ` set (fst (diffStep cur tv acc e)) \<union>
                               legProtocol ` set (snd (diffStep cur tv acc e)))"
    by (rule Cons.IH)
  also have "\<dots> \<subseteq> fst ` set es \<union>
        insert p (legProtocol ` set (fst acc) \<union> legProtocol ` set (snd acc))"
    using diffStep_protocols[of cur tv acc p w] unfolding e by blast
  also have "\<dots> = fst ` set (e # es) \<union> (legProtocol ` set (fst acc) \<union> legProtocol ` set (snd acc))"
    by (simp add: e)
  finally show ?case by simp
qed

lemma requiredDiffs_protocols:
  "legProtocol ` set (fst (requiredDiffs cur optimal tv)) \<union>
   legProtocol ` set (snd (requiredDiffs cur optimal tv)) \<subseteq> fst ` set optimal"
  using foldl_diffStep_protocols[of cur tv "([], [])" optimal]
  by (simp add: requiredDiffs_def)

text \<open>
  For a protocol of the optimal allocation with a finite weight, the step does what
  the planner is meant to do: a source of \<open>|delta| * totalValue\<close> when the delta is
  below \<open>-0.01\<close>, a destination of \<open>delta * totalValue\<close> when it is above \<open>0.01\<close>.
\<close>

lemma diffStep_finite_weight:
  "diffStep cur tv (ds, ins) (p, Num w) =
     (let delta = w - orElse (map_get cur p) 0
      in if delta < - (1 / 100)
         then (ds @ [\<lparr>legProtocol = p, legAmount = Num (\<bar>delta\<bar> * tv)\<rparr>], ins)
         else if 1 / 100 < delta
         then (ds, ins @ [\<lparr>legProtocol = p, legAmount = Num (delta * tv)\<rparr>])
         else (ds, ins))"
  by (simp add: diffStep_def Let_def jsub_def)

text \<open>
  Claim C3. A vault wholly in a protocol that the target does not contain: the first
  loop runs over the target only, so the held protocol is no source, the list of
  decreases is empty, and no transfer is planned.
\<close>

theorem absent_target_protocol_not_a_source:
  "requiredDiffs [(''kamino'', 1)] [(''jito'', Num 1)] 1000
     = ([], [\<lparr>legProtocol = ''jito'', legAmount = Num 1000\<rparr>]) \<and>
   calculateRequiredChanges [(''kamino'', 1)] [(''jito'', Num 1)] 1000 = Some []"
  by (simp add: planner_defs matchLoop.simps)

text \<open>
  Claim C4, as the spec states it, fails. In the example the loop drops the residual
  of half a cent on each side when it advances: it moves 799.995 of the 800 that the
  sources hold (the destinations ask for 900), and it ends with the sources exhausted
  and the third destination, of 100, unmatched.
\<close>

theorem greedy_matching_counterexample:
  "requiredDiffs exampleCurrent exampleTarget 1000 = (exampleDecreases, exampleIncreases) \<and>
   matchLoop [] exampleDecreases exampleIncreases 0 0
     = Some (exampleTransfers,
             [\<lparr>legProtocol = ''kamino'', legAmount = Num (5 / 1000)\<rparr>,
              \<lparr>legProtocol = ''save'', legAmount = Num 0\<rparr>],
             [\<lparr>legProtocol = ''jito'', legAmount = Num 0\<rparr>,
              \<lparr>legProtocol = ''jupiter'', legAmount = Num (5 / 1000)\<rparr>,
              \<lparr>legProtocol = ''drift'', legAmount = Num 100\<rparr>],
             2, 2) \<and>
   calculateRequiredChanges exampleCurrent exampleTarget 1000 = Some exampleTransfers \<and>
   movedTotal exampleTransfers = 799995 / 1000 \<and>
   legTotal exampleDecreases = 800 \<and>
   legTotal exampleIncreases = 900"
  by (simp add: planner_defs exampleCurrent_def exampleTarget_def exampleDecreases_def
      exampleIncreases_def exampleTransfers_def matchLoop.simps Let_def movedTotal_def
      legTotal_def)

subsection \<open>The matching loop\<close>

lemma legTotal_Nil: "legTotal [] = 0"
  by (simp add: legTotal_def)

lemma legTotal_Cons: "legTotal (x # xs) = amountOf (legAmount x) + legTotal xs"
  by (simp add: legTotal_def)

lemma movedTotal_append: "movedTotal (xs @ ys) = movedTotal xs + movedTotal ys"
  by (simp add: movedTotal_def)

lemma legTotal_drop:
  "i < length xs \<Longrightarrow> legTotal (drop i xs) = amountOf (legAmount (xs ! i)) + legTotal (drop (Suc i) xs)"
  by (simp add: Cons_nth_drop_Suc[symmetric] legTotal_Cons)

lemma finiteAmount_Num: "finiteAmount x \<Longrightarrow> \<exists>a. x = Num a \<and> 0 \<le> a"
  by (cases x) auto

lemma finiteLeg_nth:
  "list_all finiteLeg xs \<Longrightarrow> i < length xs \<Longrightarrow> \<exists>a. legAmount (xs ! i) = Num a \<and> 0 \<le> a"
  by (simp add: list_all_length finiteLeg_def finiteAmount_Num)

lemma finiteLeg_update:
  "list_all finiteLeg xs \<Longrightarrow> 0 \<le> a \<Longrightarrow>
   list_all finiteLeg (xs[i := (xs ! i)\<lparr>legAmount := Num a\<rparr>])"
proof (cases "i < length xs")
  case True
  assume "list_all finiteLeg xs" "0 \<le> a"
  with True show ?thesis
    by (auto simp: list_all_length finiteLeg_def nth_list_update)
next
  case False
  assume "list_all finiteLeg xs"
  with False show ?thesis by (simp add: list_update_beyond)
qed

lemma side_step:
  assumes i: "i < length xs" and d: "legAmount (xs ! i) = Num d"
    and xs1: "xs1 = xs[i := (xs ! i)\<lparr>legAmount := Num (d - m)\<rparr>]"
    and i1: "i1 = (if d - m < c then Suc i else i)"
    and len: "length xs' = length xs1"
    and pre: "\<forall>k<i1. xs' ! k = xs1 ! k"
    and small: "\<forall>k. i1 \<le> k \<and> k < i' \<longrightarrow> amountOf (legAmount (xs' ! k)) < c"
    and cons: "legTotal (drop i1 xs') + M = legTotal (drop i1 xs1)"
  shows "\<forall>k<i. xs' ! k = xs ! k"
    and "\<forall>k. i \<le> k \<and> k < i' \<longrightarrow> amountOf (legAmount (xs' ! k)) < c"
    and "legTotal (drop i xs') + (m + M) = legTotal (drop i xs)"
proof -
  have le: "i \<le> i1" by (simp add: i1)
  show "\<forall>k<i. xs' ! k = xs ! k"
    using pre le by (auto simp: xs1)
  have at_i: "amountOf (legAmount (xs1 ! i)) = d - m"
    using i by (simp add: xs1)
  show "\<forall>k. i \<le> k \<and> k < i' \<longrightarrow> amountOf (legAmount (xs' ! k)) < c"
  proof (intro allI impI)
    fix k assume k: "i \<le> k \<and> k < i'"
    show "amountOf (legAmount (xs' ! k)) < c"
    proof (cases "i1 \<le> k")
      case True
      with k small show ?thesis by simp
    next
      case False
      with k have "k = i" "i1 = Suc i" "d - m < c"
        by (auto simp: i1 split: if_splits)
      with pre at_i show ?thesis by simp
    qed
  qed
  have len': "i < length xs'" "i < length xs1" using i len by (simp_all add: xs1)
  have tail: "drop (Suc i) xs1 = drop (Suc i) xs" by (simp add: xs1)
  have whole: "legTotal (drop i xs) = d + legTotal (drop (Suc i) xs)"
    using i d by (simp add: legTotal_drop)
  show "legTotal (drop i xs') + (m + M) = legTotal (drop i xs)"
  proof (cases "d - m < c")
    case True
    then have "i1 = Suc i" by (simp add: i1)
    with pre have "xs' ! i = xs1 ! i" by simp
    then have "legTotal (drop i xs') = (d - m) + legTotal (drop (Suc i) xs')"
      using len'(1) at_i by (simp add: legTotal_drop)
    moreover have "legTotal (drop (Suc i) xs') + M = legTotal (drop (Suc i) xs)"
      using cons \<open>i1 = Suc i\<close> tail by simp
    ultimately show ?thesis using whole by simp
  next
    case False
    then have "i1 = i" by (simp add: i1)
    moreover have "legTotal (drop i xs1) = (d - m) + legTotal (drop (Suc i) xs)"
      using len'(2) at_i tail by (simp add: legTotal_drop)
    ultimately show ?thesis using cons whole by simp
  qed
qed

text \<open>
  The loop returns from every state whose amounts are finite and not negative: each
  round empties one of the two current legs. What it returns is described from the
  state it starts in.
\<close>

lemma matchLoop_spec:
  assumes "list_all finiteLeg decs" and "list_all finiteLeg incs"
    and "i \<le> length decs" and "j \<le> length incs"
  shows "\<exists>ch' decs' incs' i' j'.
     matchLoop ch decs incs i j = Some (ch @ ch', decs', incs', i', j') \<and>
     length decs' = length decs \<and> length incs' = length incs \<and>
     list_all finiteLeg decs' \<and> list_all finiteLeg incs' \<and> list_all finiteTransfer ch' \<and>
     i \<le> i' \<and> i' \<le> length decs \<and> j \<le> j' \<and> j' \<le> length incs \<and>
     (i' = length decs \<or> j' = length incs) \<and>
     (\<forall>k<i. decs' ! k = decs ! k) \<and> (\<forall>k<j. incs' ! k = incs ! k) \<and>
     (\<forall>k. i \<le> k \<and> k < i' \<longrightarrow> amountOf (legAmount (decs' ! k)) < 1 / 100) \<and>
     (\<forall>k. j \<le> k \<and> k < j' \<longrightarrow> amountOf (legAmount (incs' ! k)) < 1 / 100) \<and>
     legTotal (drop i decs') + movedTotal ch' = legTotal (drop i decs) \<and>
     legTotal (drop j incs') + movedTotal ch' = legTotal (drop j incs)"
  using assms
proof (induction n \<equiv> "(length decs - i) + (length incs - j)" arbitrary: ch decs incs i j
       rule: less_induct)
  case less
  show ?case
  proof (cases "i < length decs \<and> j < length incs")
    case False
    have stop: "matchLoop ch decs incs i j = Some (ch, decs, incs, i, j)"
      by (subst matchLoop.simps) (simp add: False)
    from False less.prems have "i = length decs \<or> j = length incs" by auto
    with stop less.prems show ?thesis
      by (intro exI[of _ "[]"] exI[of _ decs] exI[of _ incs] exI[of _ i] exI[of _ j])
         (simp add: movedTotal_def)
  next
    case True
    then have il: "i < length decs" and jl: "j < length incs" by simp_all
    obtain d where d: "legAmount (decs ! i) = Num d" "0 \<le> d"
      using finiteLeg_nth[OF less.prems(1) il] by blast
    obtain e where e: "legAmount (incs ! j) = Num e" "0 \<le> e"
      using finiteLeg_nth[OF less.prems(2) jl] by blast
    define m where "m = min d e"
    define t where "t = \<lparr>fromLeg = \<lparr>legProtocol = legProtocol (decs ! i), legAmount = Num m\<rparr>,
                          toLeg = \<lparr>legProtocol = legProtocol (incs ! j), legAmount = Num m\<rparr>\<rparr>"
    define decs1 where "decs1 = decs[i := (decs ! i)\<lparr>legAmount := Num (d - m)\<rparr>]"
    define incs1 where "incs1 = incs[j := (incs ! j)\<lparr>legAmount := Num (e - m)\<rparr>]"
    define i1 where "i1 = (if d - m < 1 / 100 then Suc i else i)"
    define j1 where "j1 = (if e - m < 1 / 100 then Suc j else j)"
    have m0: "0 \<le> m" "m \<le> d" "m \<le> e" using d e by (simp_all add: m_def)
    have step: "matchLoop ch decs incs i j = matchLoop (ch @ [t]) decs1 incs1 i1 j1"
      by (subst matchLoop.simps)
         (simp add: il jl d e Let_def jsub_def m_def[symmetric] t_def decs1_def incs1_def
            i1_def j1_def)
    have fin1: "list_all finiteLeg decs1" "list_all finiteLeg incs1"
      using less.prems m0 by (simp_all add: decs1_def incs1_def finiteLeg_update)
    have len1: "length decs1 = length decs" "length incs1 = length incs"
      by (simp_all add: decs1_def incs1_def)
    have b1: "i1 \<le> length decs1" "j1 \<le> length incs1"
      using il jl by (simp_all add: i1_def j1_def len1)
    have "d - m = 0 \<or> e - m = 0" by (auto simp: m_def min_def)
    then have "i1 = Suc i \<or> j1 = Suc j" by (auto simp: i1_def j1_def)
    moreover have "i \<le> i1" "j \<le> j1" by (simp_all add: i1_def j1_def)
    ultimately have decr: "(length decs1 - i1) + (length incs1 - j1)
                             < (length decs - i) + (length incs - j)"
      using il jl b1 len1 by (auto simp: i1_def j1_def split: if_splits)
    from less.hyps[OF decr fin1 b1, of "ch @ [t]"]
    obtain ch2 decs' incs' i' j' where
      res: "matchLoop (ch @ [t]) decs1 incs1 i1 j1 = Some ((ch @ [t]) @ ch2, decs', incs', i', j')"
      and lens: "length decs' = length decs1" "length incs' = length incs1"
      and fins: "list_all finiteLeg decs'" "list_all finiteLeg incs'" "list_all finiteTransfer ch2"
      and bnds: "i1 \<le> i'" "i' \<le> length decs1" "j1 \<le> j'" "j' \<le> length incs1"
      and exh: "i' = length decs1 \<or> j' = length incs1"
      and preD: "\<forall>k<i1. decs' ! k = decs1 ! k" and preI: "\<forall>k<j1. incs' ! k = incs1 ! k"
      and smallD: "\<forall>k. i1 \<le> k \<and> k < i' \<longrightarrow> amountOf (legAmount (decs' ! k)) < 1 / 100"
      and smallI: "\<forall>k. j1 \<le> k \<and> k < j' \<longrightarrow> amountOf (legAmount (incs' ! k)) < 1 / 100"
      and consD: "legTotal (drop i1 decs') + movedTotal ch2 = legTotal (drop i1 decs1)"
      and consI: "legTotal (drop j1 incs') + movedTotal ch2 = legTotal (drop j1 incs1)"
      by blast
    note sd = side_step[OF il d(1) decs1_def i1_def lens(1) preD smallD consD]
    note si = side_step[OF jl e(1) incs1_def j1_def lens(2) preI smallI consI]
    have tfin: "finiteTransfer t" using m0 by (simp add: finiteTransfer_def finiteLeg_def t_def)
    have mt: "movedTotal (t # ch2) = m + movedTotal ch2"
      by (simp add: movedTotal_def t_def)
    have r: "matchLoop ch decs incs i j = Some (ch @ (t # ch2), decs', incs', i', j')"
      using step res by simp
    have c1: "legTotal (drop i decs') + movedTotal (t # ch2) = legTotal (drop i decs)"
      using sd(3) mt by simp
    have c2: "legTotal (drop j incs') + movedTotal (t # ch2) = legTotal (drop j incs)"
      using si(3) mt by simp
    have f: "list_all finiteTransfer (t # ch2)" using tfin fins(3) by simp
    have bds: "i \<le> i'" "i' \<le> length decs" "j \<le> j'" "j' \<le> length incs"
      "i' = length decs \<or> j' = length incs"
      using bnds exh len1 \<open>i \<le> i1\<close> \<open>j \<le> j1\<close> by auto
    have l: "length decs' = length decs" "length incs' = length incs"
      using lens len1 by simp_all
    show ?thesis
      using r l fins(1,2) f bds sd(1,2) si(1,2) c1 c2 by blast
  qed
qed

lemma finiteWeight_Num: "finiteWeight w \<Longrightarrow> \<exists>r. w = Num r"
  by (cases w) auto

lemma diffStep_finite:
  assumes tv: "0 \<le> tv" and w: "finiteWeight w"
    and acc: "list_all finiteLeg (fst acc)" "list_all finiteLeg (snd acc)"
  shows "list_all finiteLeg (fst (diffStep cur tv acc (p, w))) \<and>
         list_all finiteLeg (snd (diffStep cur tv acc (p, w)))"
proof -
  obtain r where r: "w = Num r" using finiteWeight_Num[OF w] by blast
  obtain ds ins where a: "acc = (ds, ins)" by (cases acc)
  have "0 \<le> \<bar>x\<bar> * tv" for x :: real using tv by simp
  moreover have "0 \<le> x * tv" if "1 / 100 < x" for x :: real using tv that by simp
  ultimately show ?thesis
    using acc by (simp add: diffStep_def a r Let_def jsub_def finiteLeg_def)
qed

lemma foldl_diffStep_finite:
  assumes "0 \<le> tv" and "list_all (\<lambda>e. finiteWeight (snd e)) optimal"
    and "list_all finiteLeg (fst acc)" and "list_all finiteLeg (snd acc)"
  shows "list_all finiteLeg (fst (foldl (diffStep cur tv) acc optimal)) \<and>
         list_all finiteLeg (snd (foldl (diffStep cur tv) acc optimal))"
  using assms
proof (induction optimal arbitrary: acc)
  case Nil
  then show ?case by simp
next
  case (Cons e es)
  obtain p w where e: "e = (p, w)" by (cases e)
  from Cons.prems e have w: "finiteWeight w" by simp
  from diffStep_finite[OF Cons.prems(1) w Cons.prems(3,4), of cur p]
  have "list_all finiteLeg (fst (diffStep cur tv acc e))"
       "list_all finiteLeg (snd (diffStep cur tv acc e))" by (simp_all add: e)
  with Cons.IH[of "diffStep cur tv acc e"] Cons.prems show ?case by simp
qed

lemma requiredDiffs_finite:
  assumes "0 \<le> tv" and "list_all (\<lambda>e. finiteWeight (snd e)) optimal"
  shows "list_all finiteLeg (fst (requiredDiffs cur optimal tv))"
    and "list_all finiteLeg (snd (requiredDiffs cur optimal tv))"
  using foldl_diffStep_finite[OF assms, of "([], [])" cur]
  by (simp_all add: requiredDiffs_def)

lemma legTotal_nonneg: "list_all finiteLeg xs \<Longrightarrow> 0 \<le> legTotal xs"
proof (induction xs)
  case Nil
  then show ?case by (simp add: legTotal_Nil)
next
  case (Cons x xs)
  then obtain a where "legAmount x = Num a" "0 \<le> a"
    using finiteAmount_Num[of "legAmount x"] by (auto simp: finiteLeg_def)
  with Cons show ?case by (simp add: legTotal_Cons)
qed

lemma legTotal_small:
  assumes "\<forall>k<length xs. amountOf (legAmount (xs ! k)) < c"
  shows "legTotal xs \<le> c * real (length xs)"
proof -
  have "sum_list (map (\<lambda>l. amountOf (legAmount l)) xs) \<le> sum_list (map (\<lambda>l. c) xs)"
  proof (rule sum_list_mono)
    fix x assume "x \<in> set xs"
    then obtain k where "k < length xs" "xs ! k = x" by (auto simp: in_set_conv_nth)
    with assms show "amountOf (legAmount x) \<le> c" by force
  qed
  then show ?thesis by (simp add: legTotal_def sum_list_triv mult.commute)
qed

text \<open>
  Claim C4, as the code has it. For a total value that is not negative and a target of
  finite weights, the planner returns; every transfer has a finite amount; the total
  moved is at most the smaller of the total of the sources and the total of the
  destinations, and falls short of it by at most 0.01 for each entry of the longer
  list. The loop ends with one of the two lists exhausted; each leg it has passed keeps
  a residual below 0.01; the total moved and the residuals left in a list add up to
  the total the list started with, so the legs of the other list that were not reached
  stay unmatched whatever their size.
\<close>

theorem greedy_matching_bounds:
  assumes tv: "0 \<le> totalValue"
    and fin: "list_all (\<lambda>e. finiteWeight (snd e)) optimal"
  shows "\<exists>decs incs ch decs' incs' i' j'.
     requiredDiffs current optimal totalValue = (decs, incs) \<and>
     matchLoop [] decs incs 0 0 = Some (ch, decs', incs', i', j') \<and>
     calculateRequiredChanges current optimal totalValue = Some ch \<and>
     list_all finiteTransfer ch \<and>
     movedTotal ch \<le> min (legTotal decs) (legTotal incs) \<and>
     min (legTotal decs) (legTotal incs) - movedTotal ch
       \<le> (1 / 100) * real (max (length decs) (length incs)) \<and>
     (i' = length decs \<or> j' = length incs) \<and>
     (\<forall>k<i'. amountOf (legAmount (decs' ! k)) < 1 / 100) \<and>
     (\<forall>k<j'. amountOf (legAmount (incs' ! k)) < 1 / 100) \<and>
     legTotal decs' + movedTotal ch = legTotal decs \<and>
     legTotal incs' + movedTotal ch = legTotal incs"
proof -
  obtain decs incs where di: "requiredDiffs current optimal totalValue = (decs, incs)"
    by (cases "requiredDiffs current optimal totalValue")
  have fd: "list_all finiteLeg decs" and fi: "list_all finiteLeg incs"
    using requiredDiffs_finite[OF tv fin, of current] by (simp_all add: di)
  from matchLoop_spec[OF fd fi, of 0 0 "[]"]
  obtain ch decs' incs' i' j' where
    res: "matchLoop [] decs incs 0 0 = Some (ch, decs', incs', i', j')"
    and lens: "length decs' = length decs" "length incs' = length incs"
    and fins: "list_all finiteLeg decs'" "list_all finiteLeg incs'" "list_all finiteTransfer ch"
    and bnds: "i' \<le> length decs" "j' \<le> length incs"
    and exh: "i' = length decs \<or> j' = length incs"
    and smallD: "\<forall>k<i'. amountOf (legAmount (decs' ! k)) < 1 / 100"
    and smallI: "\<forall>k<j'. amountOf (legAmount (incs' ! k)) < 1 / 100"
    and consD: "legTotal decs' + movedTotal ch = legTotal decs"
    and consI: "legTotal incs' + movedTotal ch = legTotal incs"
    by auto
  have call: "calculateRequiredChanges current optimal totalValue = Some ch"
    by (simp add: calculateRequiredChanges_def di res)
  have upper: "movedTotal ch \<le> min (legTotal decs) (legTotal incs)"
    using legTotal_nonneg[OF fins(1)] legTotal_nonneg[OF fins(2)] consD consI by simp
  have lower: "min (legTotal decs) (legTotal incs) - movedTotal ch
       \<le> (1 / 100) * real (max (length decs) (length incs))"
    using exh
  proof
    assume "i' = length decs"
    with smallD lens have "legTotal decs' \<le> (1 / 100) * real (length decs)"
      using legTotal_small[of decs' "1 / 100"] by simp
    also have "\<dots> \<le> (1 / 100) * real (max (length decs) (length incs))" by simp
    finally show ?thesis using consD by simp
  next
    assume "j' = length incs"
    with smallI lens have "legTotal incs' \<le> (1 / 100) * real (length incs)"
      using legTotal_small[of incs' "1 / 100"] by simp
    also have "\<dots> \<le> (1 / 100) * real (max (length decs) (length incs))" by simp
    finally show ?thesis using consI by simp
  qed
  show ?thesis
    using di res call fins(3) upper lower exh smallD smallI consD consI by blast
qed

theorem greedy_matching_bounds_witness:
  "(0 :: real) \<le> 1000 \<and>
   list_all (\<lambda>e. finiteWeight (snd e)) exampleTarget \<and>
   (\<exists>ch. calculateRequiredChanges exampleCurrent exampleTarget 1000 = Some ch \<and>
         list_all finiteTransfer ch \<and>
         movedTotal ch \<le> min (legTotal (fst (requiredDiffs exampleCurrent exampleTarget 1000)))
                            (legTotal (snd (requiredDiffs exampleCurrent exampleTarget 1000))) \<and>
         min (legTotal (fst (requiredDiffs exampleCurrent exampleTarget 1000)))
             (legTotal (snd (requiredDiffs exampleCurrent exampleTarget 1000))) - movedTotal ch
           \<le> (1 / 100) * real (max (length (fst (requiredDiffs exampleCurrent exampleTarget 1000)))
                                    (length (snd (requiredDiffs exampleCurrent exampleTarget 1000)))))"
proof -
  have h1: "(0 :: real) \<le> 1000" by simp
  have h2: "list_all (\<lambda>e. finiteWeight (snd e)) exampleTarget"
    by (simp add: exampleTarget_def)
  from greedy_matching_bounds[OF h1 h2, of exampleCurrent]
  obtain decs incs ch where
    "requiredDiffs exampleCurrent exampleTarget 1000 = (decs, incs)"
    "calculateRequiredChanges exampleCurrent exampleTarget 1000 = Some ch"
    "list_all finiteTransfer ch"
    "movedTotal ch \<le> min (legTotal decs) (legTotal incs)"
    "min (legTotal decs) (legTotal incs) - movedTotal ch
       \<le> (1 / 100) * real (max (length decs) (length incs))"
    by blast
  then show ?thesis using h2 by auto
qed

subsection \<open>When the loop does not return\<close>

text \<open>
  With an amount that is infinite or NaN at both indices the round changes neither
  index, and the loop returns nothing. Such amounts arise from a ranking with negative
  yields whose capped shares sum to 0: the weights are infinite, and so are the
  amounts of the legs.
\<close>

lemma unbounded_step:
  assumes "unbounded a" and "unbounded b"
  shows "jsub a (jmin a b) = NaN" and "jsub b (jmin a b) = NaN"
  using assms by (cases a; cases b; simp add: jsub_def)+

lemma matchLoop_never_returns:
  assumes ret: "matchLoop ch decs incs i j = Some y"
  shows "\<not> (i < length decs \<and> j < length incs \<and>
            unbounded (legAmount (decs ! i)) \<and> unbounded (legAmount (incs ! j)))"
proof (rule matchLoop.raw_induct
    [where P = "\<lambda>ch decs incs i j y. \<not> (i < length decs \<and> j < length incs \<and>
            unbounded (legAmount (decs ! i)) \<and> unbounded (legAmount (incs ! j)))", OF _ ret])
  fix loop :: "Transfer list \<Rightarrow> Leg list \<Rightarrow> Leg list \<Rightarrow> nat \<Rightarrow> nat
     \<Rightarrow> (Transfer list \<times> Leg list \<times> Leg list \<times> nat \<times> nat) option"
  fix ch decs incs i j y
  assume IH: "\<And>ch decs incs i j y. loop ch decs incs i j = Some y \<Longrightarrow>
           \<not> (i < length decs \<and> j < length incs \<and>
            unbounded (legAmount (decs ! i)) \<and> unbounded (legAmount (incs ! j)))"
  assume body: "(if i < length decs \<and> j < length incs
      then let moveAmount = jmin (legAmount (decs ! i)) (legAmount (incs ! j));
               changes' = ch @
                 [\<lparr>fromLeg = \<lparr>legProtocol = legProtocol (decs ! i), legAmount = moveAmount\<rparr>,
                   toLeg = \<lparr>legProtocol = legProtocol (incs ! j), legAmount = moveAmount\<rparr>\<rparr>];
               decreases' = decs[i := (decs ! i)
                              \<lparr>legAmount := jsub (legAmount (decs ! i)) moveAmount\<rparr>];
               increases' = incs[j := (incs ! j)
                              \<lparr>legAmount := jsub (legAmount (incs ! j)) moveAmount\<rparr>];
               i' = (if jlt (legAmount (decreases' ! i)) (Num (1 / 100)) then i + 1 else i);
               j' = (if jlt (legAmount (increases' ! j)) (Num (1 / 100)) then j + 1 else j)
           in loop changes' decreases' increases' i' j'
      else Some (ch, decs, incs, i, j)) = Some y"
  show "\<not> (i < length decs \<and> j < length incs \<and>
            unbounded (legAmount (decs ! i)) \<and> unbounded (legAmount (incs ! j)))"
  proof
    assume st: "i < length decs \<and> j < length incs \<and>
            unbounded (legAmount (decs ! i)) \<and> unbounded (legAmount (incs ! j))"
    define a where "a = legAmount (decs ! i)"
    define b where "b = legAmount (incs ! j)"
    define decs1 where "decs1 = decs[i := (decs ! i)\<lparr>legAmount := NaN\<rparr>]"
    define incs1 where "incs1 = incs[j := (incs ! j)\<lparr>legAmount := NaN\<rparr>]"
    from st have ub: "unbounded a" "unbounded b" by (simp_all add: a_def b_def)
    note nan = unbounded_step[OF ub]
    from body st obtain ch' where new: "loop ch' decs1 incs1 i j = Some y"
      by (simp add: Let_def a_def[symmetric] b_def[symmetric] nan decs1_def incs1_def)
    have "\<not> (i < length decs1 \<and> j < length incs1 \<and>
            unbounded (legAmount (decs1 ! i)) \<and> unbounded (legAmount (incs1 ! j)))"
      using new by (rule IH)
    with st show False
      by (simp add: decs1_def incs1_def)
  qed
qed

lemma negative_yield_allocation:
  "calculateOptimalAllocation DEFAULT_CONFIG negativeYieldRanked
     = [(''jito'', PInf), (''kamino'', NInf), (''save'', NInf)]"
  by (simp add: allocation_defs DEFAULT_CONFIG_def rankedEntry_def negativeYieldRanked_def)

lemma negative_yield_plan_never_returns:
  "calculateRequiredChanges [] (calculateOptimalAllocation DEFAULT_CONFIG negativeYieldRanked) 1000
     = None"
proof -
  have d: "requiredDiffs [] [(''jito'', PInf), (''kamino'', NInf), (''save'', NInf)] 1000
      = ([\<lparr>legProtocol = ''kamino'', legAmount = PInf\<rparr>,
          \<lparr>legProtocol = ''save'', legAmount = PInf\<rparr>],
         [\<lparr>legProtocol = ''jito'', legAmount = PInf\<rparr>])"
    by (simp add: planner_defs)
  have "matchLoop [] [\<lparr>legProtocol = ''kamino'', legAmount = PInf\<rparr>,
          \<lparr>legProtocol = ''save'', legAmount = PInf\<rparr>]
         [\<lparr>legProtocol = ''jito'', legAmount = PInf\<rparr>] 0 0 = None"
  proof (rule ccontr)
    assume "matchLoop [] [\<lparr>legProtocol = ''kamino'', legAmount = PInf\<rparr>,
          \<lparr>legProtocol = ''save'', legAmount = PInf\<rparr>]
         [\<lparr>legProtocol = ''jito'', legAmount = PInf\<rparr>] 0 0 \<noteq> None"
    then obtain y where "matchLoop [] [\<lparr>legProtocol = ''kamino'', legAmount = PInf\<rparr>,
          \<lparr>legProtocol = ''save'', legAmount = PInf\<rparr>]
         [\<lparr>legProtocol = ''jito'', legAmount = PInf\<rparr>] 0 0 = Some y" by auto
    from matchLoop_never_returns[OF this] show False by simp
  qed
  then show ?thesis
    by (simp add: negative_yield_allocation calculateRequiredChanges_def d)
qed

section \<open>The Cross-Chain Ranker\<close>

text \<open>Every opportunity of the result is made by the loop body from a record of the input.\<close>

lemma set_foldl_push:
  "set (foldl (\<lambda>acc a. if P a then acc else acc @ [g a]) acc0 xs)
     = set acc0 \<union> g ` {a \<in> set xs. \<not> P a}"
  by (induction xs arbitrary: acc0) auto

lemma crossOpportunity_fields:
  "minHoldDays (crossOpportunity cur hdays a)
     = minHoldDaysOf (totalCostUSD (crossOpportunity cur hdays a)) (oppApy (crossOpportunity cur hdays a))"
  by (simp add: crossOpportunity_def Let_def)

lemma set_rankCross:
  "set (rankCrossChainOpportunities apys cur hdays m)
     \<subseteq> crossOpportunity cur hdays ` set apys"
  unfolding rankCrossChainOpportunities_def
  by (auto simp: set_jsSort set_foldl_push)

text \<open>
  The total cost of an opportunity is the rounded sum of a bridge cost and a gas cost of
  the chain table: it lies between 0.00025 and 24 USD.
\<close>

lemma gas_bounds: "1 / 2000 \<le> avgGasCostUSD (CHAIN_CONFIG c) \<and> avgGasCostUSD (CHAIN_CONFIG c) \<le> 5"
proof (cases c)
  case solana
  show ?thesis using fl_crude[of "1 / 1000"] by (simp add: solana)
next
  case base
  show ?thesis using fl_crude[of "5 / 100"] by (simp add: base)
next
  case ethereum
  show ?thesis by (simp add: ethereum)
next
  case arbitrum
  show ?thesis using fl_crude[of "1 / 10"] by (simp add: arbitrum)
next
  case hyperliquid
  show ?thesis using fl_crude[of "1 / 1000"] by (simp add: hyperliquid)
qed

lemma bridge_bounds: "0 \<le> bridgeCostUSD (CHAIN_CONFIG c) \<and> bridgeCostUSD (CHAIN_CONFIG c) \<le> 2"
  by (cases c) simp_all

lemma totalCost_bounds:
  "1 / 4000 \<le> totalCostUSD (crossOpportunity cur hdays a) \<and>
   totalCostUSD (crossOpportunity cur hdays a) \<le> 24"
proof -
  define g where "g = avgGasCostUSD (CHAIN_CONFIG (chain a))"
  define b where "b = (if chain a \<noteq> cur then bridgeCostUSD (CHAIN_CONFIG (chain a)) else 0)"
  have tc: "totalCostUSD (crossOpportunity cur hdays a) = fl (b + g)"
    by (simp add: crossOpportunity_def Let_def g_def b_def)
  have g: "1 / 2000 \<le> g" "g \<le> 5" using gas_bounds[of "chain a"] by (simp_all add: g_def)
  have b: "0 \<le> b" "b \<le> 2" using bridge_bounds[of "chain a"] by (simp_all add: b_def)
  have s: "1 / 2000 \<le> b + g" "b + g \<le> 7" using g b by linarith+
  have "(1 :: real) / 2 ^ 1022 \<le> 1 / 2000" by simp
  with s(1) have n: "1 / 2 ^ 1022 \<le> b + g" by linarith
  have lo: "1 / 4000 \<le> fl (b + g)" using fl_crude(1)[OF n] s(1) by argo
  have hi: "fl (b + g) \<le> 24" using fl_crude(2)[OF n] s(2) by argo
  from lo hi have "1 / 4000 \<le> fl (b + g)" "fl (b + g) \<le> 24" .
  then show ?thesis unfolding tc by simp
qed

text \<open>
  The three roundings of the minimum hold days. For a total cost in that range and an
  APY between 2 to the power -500 and 2 to the power 500, the divisor is positive, no
  quotient leaves the range of the doubles, and the computed quotient is within 1 of the
  exact one when the latter is at most 2 to the power 50.
\<close>

lemma minHold_rounding:
  fixes tc a :: real
  assumes tc: "1 / 4000 \<le> tc" "tc \<le> 24"
    and a: "1 / 2 ^ 500 \<le> a" "a \<le> 2 ^ 500"
    and R: "tc / (a / 365 * 1000) \<le> 2 ^ 50"
  shows "0 < fl (a / 365)"
    and "minHoldDaysOf tc a = Num (real_of_int \<lceil>fl (fl (tc / 1000) / fl (a / 365))\<rceil>)"
    and "\<bar>fl (fl (tc / 1000) / fl (a / 365)) - tc / (a / 365 * 1000)\<bar> < 1"
proof -
  define u :: real where "u = 1 / 2 ^ 53"
  define A where "A = tc / 1000"
  define B where "B = a / 365"
  define rr where "rr = A / B"
  define x1 where "x1 = fl A"
  define x2 where "x2 = fl B"
  define y where "y = x1 / x2"
  define Q where "Q = fl y"
  have tcpos: "0 < tc" and apos: "0 < a" using tc(1) a(1) by (auto intro: less_le_trans[rotated])
  have Apos: "0 < A" and Bpos: "0 < B" using tcpos apos by (simp_all add: A_def B_def)
  have rr_eq: "rr = tc / (a / 365 * 1000)" by (simp add: rr_def A_def B_def)
  have rrpos: "0 < rr" using Apos Bpos by (simp add: rr_def)
  have Alo: "1 / 4000000 \<le> A" and Ahi: "A \<le> 1" using tc by (simp_all add: A_def)
  have Blo: "1 / (2 ^ 500 * 365) \<le> B" and Bhi: "B \<le> 2 ^ 500" using a by (simp_all add: B_def field_simps)
  have An: "2 powr (- 1022) \<le> A" using Alo by (intro normal_small) simp
  have Bn: "2 powr (- 1022) \<le> B" using Blo by (intro normal_small) simp
  have x1b: "A * (1 - u) \<le> x1" "x1 \<le> A * (1 + u)"
    using fl_bounds[OF An] by (simp_all add: x1_def u_def)
  have x2b: "B * (1 - u) \<le> x2" "x2 \<le> B * (1 + u)"
    using fl_bounds[OF Bn] by (simp_all add: x2_def u_def)
  have upos: "0 < 1 - u" "1 + u \<le> 2" by (simp_all add: u_def)
  have u0: "0 < u" by (simp add: u_def)
  have x1pos: "0 < x1" using x1b(1) mult_pos_pos[OF Apos upos(1)] by linarith
  have x2pos: "0 < x2" using x2b(1) mult_pos_pos[OF Bpos upos(1)] by linarith
  have x1hi: "x1 \<le> 2"
  proof -
    have "A * (1 + u) \<le> 1 * 2" using Ahi upos(2) Apos u0 by (intro mult_mono) auto
    with x1b(2) show ?thesis by simp
  qed
  have x2hi: "x2 \<le> 2 ^ 501"
  proof -
    have "B * (1 + u) \<le> 2 ^ 500 * 2" using Bhi upos(2) Bpos u0 by (intro mult_mono) auto
    with x2b(2) show ?thesis by simp
  qed
  have d1: "ddiv (Num tc) (Num 1000) = Num x1"
    using x1pos x1hi by (simp add: ddiv_def x1_def A_def dround_Num)
  have d2: "ddiv (Num a) (Num 365) = Num x2"
    using x2pos x2hi by (simp add: ddiv_def x2_def B_def dround_Num)
  have yup: "y \<le> rr * (1 + 3 * u)"
  proof -
    have "y \<le> (A * (1 + u)) / (B * (1 - u))"
      unfolding y_def using x1pos x1b(2) x2b(1) Bpos upos(1)
      by (intro frac_le) (auto intro: mult_pos_pos)
    also have "\<dots> = rr * ((1 + u) / (1 - u))" by (simp add: rr_def)
    also have "\<dots> \<le> rr * (1 + 3 * u)"
      using rrpos by (intro mult_left_mono) (simp_all add: u_def)
    finally show ?thesis .
  qed
  have ylo: "rr * (1 - 3 * u) \<le> y"
  proof -
    have "rr * (1 - 3 * u) \<le> rr * ((1 - u) / (1 + u))"
      using rrpos by (intro mult_left_mono) (simp_all add: u_def)
    also have "\<dots> = (A * (1 - u)) / (B * (1 + u))" by (simp add: rr_def)
    also have "\<dots> \<le> y"
      unfolding y_def using x1b(1) x2b(2) x2pos x1pos Apos upos(1)
      by (intro frac_le) (auto intro: mult_nonneg_nonneg)
    finally show ?thesis .
  qed
  have rrlo: "1 / (4000000 * 2 ^ 500) \<le> rr"
  proof -
    have "(1 / 4000000) / 2 ^ 500 \<le> A / B"
      using Alo Bhi Bpos by (intro frac_le) auto
    then show ?thesis by (simp add: rr_def)
  qed
  have rrhi: "rr \<le> 2 ^ 50" using R by (simp add: rr_eq)
  have ypos: "0 < y" using x1pos x2pos by (simp add: y_def)
  have "rr / 2 \<le> rr * (1 - 3 * u)" using rrpos by (simp add: u_def)
  with ylo have "rr / 2 \<le> y" by linarith
  moreover have "(1 :: real) / (8000000 * 2 ^ 500) = (1 / (4000000 * 2 ^ 500)) / 2" by simp
  ultimately have ylo': "1 / (8000000 * 2 ^ 500) \<le> y" using rrlo by linarith
  have yn: "2 powr (- 1022) \<le> y" using ylo' by (intro normal_small) simp
  have Qb: "y * (1 - u) \<le> Q" "Q \<le> y * (1 + u)"
    using fl_bounds[OF yn] by (simp_all add: Q_def u_def)
  have Qup: "Q \<le> rr * (1 + 5 * u)"
  proof -
    have "y * (1 + u) \<le> (rr * (1 + 3 * u)) * (1 + u)"
      using yup by (intro mult_right_mono) (simp_all add: u_def)
    also have "\<dots> = rr * ((1 + 3 * u) * (1 + u))" by simp
    also have "\<dots> \<le> rr * (1 + 5 * u)"
      using rrpos by (intro mult_left_mono) (simp_all add: u_def)
    finally show ?thesis using Qb(2) by simp
  qed
  have Qlo: "rr * (1 - 5 * u) \<le> Q"
  proof -
    have "rr * (1 - 5 * u) \<le> rr * ((1 - 3 * u) * (1 - u))"
      using rrpos by (intro mult_left_mono) (simp_all add: u_def)
    also have "\<dots> = (rr * (1 - 3 * u)) * (1 - u)" by simp
    also have "\<dots> \<le> y * (1 - u)"
      using ylo by (intro mult_right_mono) (simp_all add: u_def)
    finally show ?thesis using Qb(1) by simp
  qed
  have err: "rr * (5 * u) \<le> 5 / 8"
  proof -
    have "rr * (5 * u) \<le> 2 ^ 50 * (5 * u)" using rrhi by (intro mult_right_mono) (simp_all add: u_def)
    also have "\<dots> = 5 / 8" by (simp add: u_def)
    finally show ?thesis .
  qed
  have close: "\<bar>Q - rr\<bar> < 1"
    using Qup Qlo err by (simp add: algebra_simps abs_less_iff)
  have Qhi: "\<bar>Q\<bar> < 2 ^ 1024"
  proof -
    have "\<bar>Q\<bar> < rr + 1" using close rrpos by linarith
    also have "\<dots> \<le> 2 ^ 50 + 1" using rrhi by simp
    also have "\<dots> < 2 ^ 1024" by simp
    finally show ?thesis .
  qed
  have d3: "ddiv (Num x1) (Num x2) = Num Q"
    using x2pos Qhi by (simp add: ddiv_def Q_def y_def dround_Num)
  show "0 < fl (a / 365)" using x2pos by (simp add: x2_def B_def)
  show "minHoldDaysOf tc a = Num (real_of_int \<lceil>fl (fl (tc / 1000) / fl (a / 365))\<rceil>)"
    using tcpos apos by (simp add: minHoldDaysOf_def d1 d2 d3)
       (simp add: Q_def y_def x1_def x2_def A_def B_def)
  show "\<bar>fl (fl (tc / 1000) / fl (a / 365)) - tc / (a / 365 * 1000)\<bar> < 1"
    using close by (simp add: Q_def y_def x1_def x2_def A_def B_def rr_def)
qed

text \<open>The doubles of the examples.\<close>

lemma fl_apy: "fl (365 / 1000) = 1643813863990231 / 4503599627370496"
  using fl_eval[of "- 2" "365 / 1000" 6575255455960924] by (simp add: powr_minus)

lemma fl_cost: "fl (7 / 1000) = 8070450532247929 / 1152921504606846976"
  using fl_eval[of "- 8" "7 / 1000" 8070450532247929] by (simp add: powr_minus)

lemma fl_daily:
  "fl (1643813863990231 / 4503599627370496 / 365) = 1152921504606847 / 1152921504606846976"
  using fl_eval[of "- 10" "1643813863990231 / 4503599627370496 / 365" 4611686018427388]
  by (simp add: powr_minus)

lemma fl_apy_norm: "fl (73 / 200) = 1643813863990231 / 4503599627370496"
  using fl_apy by simp

lemma fl_daily_norm: "fl (1643813863990231 / 1643813863990231040) = 1152921504606847 / 1152921504606846976"
  using fl_daily by simp

lemma fl_apy_fixed: "fl (1643813863990231 / 4503599627370496) = 1643813863990231 / 4503599627370496"
  using fl_eval[of "- 2" "1643813863990231 / 4503599627370496" 6575255455960924]
  by (simp add: powr_minus)

lemma aaveEthereum_score: "crossRiskScore aaveEthereum = 100"
  by (simp add: crossRiskScore_def ccRecord_def aaveEthereum_def)

lemma aaveEthereum_out:
  "rankCrossChainOpportunities [aaveEthereum] solana 30 60 = [crossOpportunity solana 30 aaveEthereum]"
  by (simp add: rankCrossChainOpportunities_def jsSort_def aaveEthereum_score)

lemma aaveEthereum_apy:
  "oppApy (crossOpportunity solana 30 aaveEthereum) = 1643813863990231 / 4503599627370496"
  by (simp add: crossOpportunity_def aaveEthereum_def ccRecord_def Let_def fl_apy_norm)

lemma aaveEthereum_cost: "totalCostUSD (crossOpportunity solana 30 aaveEthereum) = 7"
  by (simp add: crossOpportunity_def aaveEthereum_def ccRecord_def Let_def fl_7)

lemma aaveEthereum_days:
  "minHoldDaysOf 7 (1643813863990231 / 4503599627370496) = Num 7"
  by (simp add: minHoldDaysOf_def ddiv_def dround_Num fl_cost fl_daily_norm fl_7)

lemma idleBase_score: "crossRiskScore idleBase = 95"
  by (simp add: crossRiskScore_def ccRecord_def idleBase_def)

lemma idleBase_apy: "oppApy (crossOpportunity solana 30 idleBase) = 0"
  by (simp add: crossOpportunity_def idleBase_def ccRecord_def Let_def)

lemma crossMarket_out:
  "rankCrossChainOpportunities [aaveEthereum, idleBase] solana 30 60
     = [crossOpportunity solana 30 aaveEthereum, crossOpportunity solana 30 idleBase]"
proof -
  have a: "oppRiskAdjustedAPY (crossOpportunity solana 30 aaveEthereum)
             = 1643813863990231 / 4503599627370496"
    by (simp add: crossOpportunity_def Let_def aaveEthereum_score fl_1 fl_apy_fixed)
       (simp add: aaveEthereum_def ccRecord_def fl_apy_norm fl_apy_fixed)
  have b: "oppRiskAdjustedAPY (crossOpportunity solana 30 idleBase) = 0"
    by (simp add: crossOpportunity_def Let_def idleBase_def ccRecord_def fl_0)
  show ?thesis
    by (simp add: rankCrossChainOpportunities_def jsSort_def aaveEthereum_score idleBase_score a b)
qed

text \<open>
  Claim C8, as the spec states it, fails. For the Ethereum pool reached from Solana the
  total cost is 7 USD and the APY is the double 0.365: the code divides the rounded
  \<open>7 / 1000\<close> by the rounded \<open>apy / 365\<close>, gets exactly 7, and returns 7 days, while
  \<open>ceil(totalCost / (apy / 365 * 1000))\<close> is 8 (the double 0.365 is below 0.365).
\<close>

theorem min_hold_days_counterexample:
  "rankCrossChainOpportunities [aaveEthereum] solana 30 60 = [crossOpportunity solana 30 aaveEthereum] \<and>
   totalCostUSD (crossOpportunity solana 30 aaveEthereum) = 7 \<and>
   oppApy (crossOpportunity solana 30 aaveEthereum) = 1643813863990231 / 4503599627370496 \<and>
   minHoldDays (crossOpportunity solana 30 aaveEthereum) = Num 7 \<and>
   \<lceil>totalCostUSD (crossOpportunity solana 30 aaveEthereum)
      / (oppApy (crossOpportunity solana 30 aaveEthereum) / 365 * 1000)\<rceil> = 8"
proof -
  have c: "\<lceil>7 / ((1643813863990231 / 4503599627370496) / 365 * 1000) :: real\<rceil> = 8"
    by (simp add: ceiling_eq_iff)
  have d: "minHoldDays (crossOpportunity solana 30 aaveEthereum) = Num 7"
    by (simp add: crossOpportunity_fields aaveEthereum_cost aaveEthereum_apy aaveEthereum_days)
  show ?thesis
    by (simp only: aaveEthereum_out aaveEthereum_cost aaveEthereum_apy d c simp_thms)
qed

text \<open>
  Claim C8, as the code has it. Every opportunity returned by
  \<open>rankCrossChainOpportunities\<close> has a positive total cost. Its minimum hold days are 0
  when the APY is not positive. When the APY is between 2 to the power -500 and 2 to the
  power 500 and \<open>totalCost / (apy / 365 * 1000)\<close> is at most 2 to the power 50, the divisor
  \<open>apy / 365\<close>, as rounded, is positive (no division by zero), the minimum hold days are
  the ceiling of the double quotient of the rounded \<open>totalCost / 1000\<close> and the rounded
  \<open>apy / 365\<close>, a finite number, and they differ from
  \<open>ceil(totalCost / (apy / 365 * 1000))\<close> by at most 1.
\<close>

theorem min_hold_days_rounded:
  "\<forall>opp\<in>set (rankCrossChainOpportunities apys cur holdDays m).
     0 < totalCostUSD opp \<and>
     (oppApy opp \<le> 0 \<longrightarrow> minHoldDays opp = Num 0) \<and>
     (1 / 2 ^ 500 \<le> oppApy opp \<and> oppApy opp \<le> 2 ^ 500 \<and>
      totalCostUSD opp / (oppApy opp / 365 * 1000) \<le> 2 ^ 50 \<longrightarrow>
        0 < fl (oppApy opp / 365) \<and>
        minHoldDays opp
          = Num (real_of_int \<lceil>fl (fl (totalCostUSD opp / 1000) / fl (oppApy opp / 365))\<rceil>) \<and>
        \<bar>\<lceil>fl (fl (totalCostUSD opp / 1000) / fl (oppApy opp / 365))\<rceil>
           - \<lceil>totalCostUSD opp / (oppApy opp / 365 * 1000)\<rceil>\<bar> \<le> 1)"
proof
  fix opp assume "opp \<in> set (rankCrossChainOpportunities apys cur holdDays m)"
  then obtain a where opp: "opp = crossOpportunity cur holdDays a"
    using set_rankCross by blast
  have tc: "1 / 4000 \<le> totalCostUSD opp" "totalCostUSD opp \<le> 24"
    using totalCost_bounds[of cur holdDays a] by (simp_all add: opp)
  have mh: "minHoldDays opp = minHoldDaysOf (totalCostUSD opp) (oppApy opp)"
    by (simp add: opp crossOpportunity_fields)
  have pos: "0 < totalCostUSD opp" using tc(1) by linarith
  have zero: "minHoldDays opp = Num 0" if "oppApy opp \<le> 0"
    using that by (simp add: mh minHoldDaysOf_def)
  have main: "0 < fl (oppApy opp / 365) \<and>
        minHoldDays opp
          = Num (real_of_int \<lceil>fl (fl (totalCostUSD opp / 1000) / fl (oppApy opp / 365))\<rceil>) \<and>
        \<bar>\<lceil>fl (fl (totalCostUSD opp / 1000) / fl (oppApy opp / 365))\<rceil>
           - \<lceil>totalCostUSD opp / (oppApy opp / 365 * 1000)\<rceil>\<bar> \<le> 1"
    if h: "1 / 2 ^ 500 \<le> oppApy opp \<and> oppApy opp \<le> 2 ^ 500 \<and>
      totalCostUSD opp / (oppApy opp / 365 * 1000) \<le> 2 ^ 50"
  proof -
    from h have a: "1 / 2 ^ 500 \<le> oppApy opp" "oppApy opp \<le> 2 ^ 500"
      and r: "totalCostUSD opp / (oppApy opp / 365 * 1000) \<le> 2 ^ 50" by simp_all
    note m = minHold_rounding[OF tc a r]
    from m(3) have "\<bar>\<lceil>fl (fl (totalCostUSD opp / 1000) / fl (oppApy opp / 365))\<rceil>
           - \<lceil>totalCostUSD opp / (oppApy opp / 365 * 1000)\<rceil>\<bar> \<le> 1"
      by linarith
    with m(1,2) show ?thesis by (simp add: mh)
  qed
  show "0 < totalCostUSD opp \<and>
     (oppApy opp \<le> 0 \<longrightarrow> minHoldDays opp = Num 0) \<and>
     (1 / 2 ^ 500 \<le> oppApy opp \<and> oppApy opp \<le> 2 ^ 500 \<and>
      totalCostUSD opp / (oppApy opp / 365 * 1000) \<le> 2 ^ 50 \<longrightarrow>
        0 < fl (oppApy opp / 365) \<and>
        minHoldDays opp
          = Num (real_of_int \<lceil>fl (fl (totalCostUSD opp / 1000) / fl (oppApy opp / 365))\<rceil>) \<and>
        \<bar>\<lceil>fl (fl (totalCostUSD opp / 1000) / fl (oppApy opp / 365))\<rceil>
           - \<lceil>totalCostUSD opp / (oppApy opp / 365 * 1000)\<rceil>\<bar> \<le> 1)"
    using pos zero main by blast
qed

theorem min_hold_days_rounded_witness:
  "rankCrossChainOpportunities [aaveEthereum, idleBase] solana 30 60
     = [crossOpportunity solana 30 aaveEthereum, crossOpportunity solana 30 idleBase] \<and>
   oppApy (crossOpportunity solana 30 idleBase) = 0 \<and>
   0 < totalCostUSD (crossOpportunity solana 30 idleBase) \<and>
   minHoldDays (crossOpportunity solana 30 idleBase) = Num 0 \<and>
   1 / 2 ^ 500 \<le> oppApy (crossOpportunity solana 30 aaveEthereum) \<and>
   oppApy (crossOpportunity solana 30 aaveEthereum) \<le> 2 ^ 500 \<and>
   totalCostUSD (crossOpportunity solana 30 aaveEthereum)
     / (oppApy (crossOpportunity solana 30 aaveEthereum) / 365 * 1000) \<le> 2 ^ 50 \<and>
   0 < fl (oppApy (crossOpportunity solana 30 aaveEthereum) / 365) \<and>
   minHoldDays (crossOpportunity solana 30 aaveEthereum)
     = Num (real_of_int \<lceil>fl (fl (totalCostUSD (crossOpportunity solana 30 aaveEthereum) / 1000)
                               / fl (oppApy (crossOpportunity solana 30 aaveEthereum) / 365))\<rceil>) \<and>
   \<bar>\<lceil>fl (fl (totalCostUSD (crossOpportunity solana 30 aaveEthereum) / 1000)
          / fl (oppApy (crossOpportunity solana 30 aaveEthereum) / 365))\<rceil>
      - \<lceil>totalCostUSD (crossOpportunity solana 30 aaveEthereum)
          / (oppApy (crossOpportunity solana 30 aaveEthereum) / 365 * 1000)\<rceil>\<bar> \<le> 1"
proof -
  let ?A = "crossOpportunity solana 30 aaveEthereum"
  let ?B = "crossOpportunity solana 30 idleBase"
  note t = min_hold_days_rounded[of "[aaveEthereum, idleBase]" solana 30 60, unfolded crossMarket_out]
  have tA: "0 < totalCostUSD ?A \<and>
     (oppApy ?A \<le> 0 \<longrightarrow> minHoldDays ?A = Num 0) \<and>
     (1 / 2 ^ 500 \<le> oppApy ?A \<and> oppApy ?A \<le> 2 ^ 500 \<and>
      totalCostUSD ?A / (oppApy ?A / 365 * 1000) \<le> 2 ^ 50 \<longrightarrow>
        0 < fl (oppApy ?A / 365) \<and>
        minHoldDays ?A
          = Num (real_of_int \<lceil>fl (fl (totalCostUSD ?A / 1000) / fl (oppApy ?A / 365))\<rceil>) \<and>
        \<bar>\<lceil>fl (fl (totalCostUSD ?A / 1000) / fl (oppApy ?A / 365))\<rceil>
           - \<lceil>totalCostUSD ?A / (oppApy ?A / 365 * 1000)\<rceil>\<bar> \<le> 1)"
    by (rule bspec[OF t]) simp
  have tB: "0 < totalCostUSD ?B \<and> (oppApy ?B \<le> 0 \<longrightarrow> minHoldDays ?B = Num 0)"
    using bspec[OF t, of ?B] by simp
  have r: "1 / 2 ^ 500 \<le> oppApy ?A \<and> oppApy ?A \<le> 2 ^ 500 \<and>
      totalCostUSD ?A / (oppApy ?A / 365 * 1000) \<le> 2 ^ 50"
    by (simp add: aaveEthereum_apy aaveEthereum_cost)
  have B0: "minHoldDays ?B = Num 0" using tB idleBase_apy by simp
  have Bc: "0 < totalCostUSD ?B" using tB by simp
  from tA r B0 Bc idleBase_apy crossMarket_out show ?thesis by blast
qed

text \<open>
  The range of the APY matters: for the smallest positive double the quotient
  \<open>apy / 365\<close> rounds to 0, the code divides by zero, and the minimum hold days are
  infinite.
\<close>

lemma tiny_yield_divides_by_zero: "minHoldDaysOf 7 (1 / 2 ^ 1074) = PInf"
proof -
  define c :: real where "c = 1 / 2 ^ 1074"
  have cpos: "0 < c" by (simp add: c_def)
  have "c = 2 powr (- 1074)"
    unfolding c_def by (simp only: powr_minus_divide powr_numeral zero_less_numeral)
  then have "c / 2 = 2 powr (- 1074) / 2 powr 1" by simp
  also have "\<dots> = 2 powr (- 1074 - 1)" by (rule powr_diff[symmetric])
  also have "\<dots> = 2 powr (- 1075)" by simp
  finally have half: "c / 2 = 2 powr (- 1075)" .
  have "c / 365 < c / 2" using cpos by simp
  with half have "c / 365 < 2 powr (- 1075)" by simp
  moreover have "0 < c / 365" using cpos by simp
  ultimately have "fl (c / 365) = 0" by (intro fl_underflow)
  then have z: "fl (1 / 2 ^ 1074 / 365) = 0" by (simp only: c_def)
  have c: "0 < fl (7 / 1000)" by (simp add: fl_cost)
  have "fl (a / 365) = 0 \<Longrightarrow> ddiv (Num a) (Num 365) = Num 0" for a
    by (simp add: ddiv_def dround_def)
  from this[OF z] have d: "ddiv (Num (1 / 2 ^ 1074)) (Num 365) = Num 0" .
  have n: "ddiv (Num 7) (Num 1000) = Num (fl (7 / 1000))"
    by (simp add: ddiv_def dround_Num fl_cost)
  show ?thesis
    unfolding minHoldDaysOf_def d n using c by (simp add: ddiv_def)
qed

end
